theory Spec2Isabelle
  imports Complex_Main "HOL-Library.Word"
begin

chapter \<open>The embedding: data model and operations\<close>

text \<open>
  Tensors of floating-point numbers are modelled elementwise over the reals (one batch
  element per time step); where a claim depends on the IEEE special values (infinities
  and NaN) they are modelled explicitly. Python exceptions are values of type \<open>error\<close>.
\<close>

datatype error = AssertionError | ZeroDivisionError | IndexError | ValueError | KeyError
  | AttributeError | NotImplementedError

section \<open>Floating-point values with the IEEE special values\<close>

text \<open>
  A float is a finite real or one of \<open>+inf\<close>, \<open>-inf\<close>, \<open>NaN\<close>. Rounding and overflow
  of finite results are not modelled; the special values follow IEEE 754: \<open>NaN\<close>
  propagates, \<open>inf - inf\<close>, \<open>0 * inf\<close>, \<open>0 / 0\<close> and \<open>inf / inf\<close> are \<open>NaN\<close>, a non-zero
  number divided by zero is an infinity (zero is taken as \<open>+0\<close>), the square root of a
  negative number is \<open>NaN\<close>. \<open>fmax\<close> and \<open>fmin\<close> are \<^verbatim>\<open>jnp.maximum\<close> and
  \<^verbatim>\<open>jnp.minimum\<close>, which propagate \<open>NaN\<close>. \<open>fpow d n\<close> is \<^verbatim>\<open>d ** n\<close> for an
  integer-valued exponent.
\<close>

datatype fl = Fin real | PInf | NInf | NaN

fun isfinite :: "fl \<Rightarrow> bool" where
  "isfinite (Fin a) = True"
| "isfinite _ = False"

fun fneg :: "fl \<Rightarrow> fl" where
  "fneg (Fin a) = Fin (- a)"
| "fneg PInf = NInf"
| "fneg NInf = PInf"
| "fneg NaN = NaN"

fun fadd :: "fl \<Rightarrow> fl \<Rightarrow> fl" where
  "fadd (Fin a) (Fin b) = Fin (a + b)"
| "fadd NaN _ = NaN"
| "fadd _ NaN = NaN"
| "fadd PInf NInf = NaN"
| "fadd NInf PInf = NaN"
| "fadd PInf _ = PInf"
| "fadd _ PInf = PInf"
| "fadd NInf _ = NInf"
| "fadd _ NInf = NInf"

definition fsub :: "fl \<Rightarrow> fl \<Rightarrow> fl" where
  "fsub a b = fadd a (fneg b)"

fun fmul :: "fl \<Rightarrow> fl \<Rightarrow> fl" where
  "fmul (Fin a) (Fin b) = Fin (a * b)"
| "fmul NaN _ = NaN"
| "fmul _ NaN = NaN"
| "fmul (Fin a) PInf = (if a = 0 then NaN else if 0 < a then PInf else NInf)"
| "fmul (Fin a) NInf = (if a = 0 then NaN else if 0 < a then NInf else PInf)"
| "fmul PInf (Fin b) = (if b = 0 then NaN else if 0 < b then PInf else NInf)"
| "fmul NInf (Fin b) = (if b = 0 then NaN else if 0 < b then NInf else PInf)"
| "fmul PInf PInf = PInf"
| "fmul NInf NInf = PInf"
| "fmul PInf NInf = NInf"
| "fmul NInf PInf = NInf"

fun fdiv :: "fl \<Rightarrow> fl \<Rightarrow> fl" where
  "fdiv (Fin a) (Fin b) =
     (if b = 0 then (if a = 0 then NaN else if 0 < a then PInf else NInf) else Fin (a / b))"
| "fdiv (Fin a) PInf = Fin 0"
| "fdiv (Fin a) NInf = Fin 0"
| "fdiv PInf (Fin b) = (if b < 0 then NInf else PInf)"
| "fdiv NInf (Fin b) = (if b < 0 then PInf else NInf)"
| "fdiv _ _ = NaN"

fun fmax :: "fl \<Rightarrow> fl \<Rightarrow> fl" where
  "fmax (Fin a) (Fin b) = Fin (max a b)"
| "fmax NaN _ = NaN"
| "fmax _ NaN = NaN"
| "fmax PInf _ = PInf"
| "fmax _ PInf = PInf"
| "fmax NInf b = b"
| "fmax a NInf = a"


fun fsqrt :: "fl \<Rightarrow> fl" where
  "fsqrt (Fin a) = (if a < 0 then NaN else Fin (sqrt a))"
| "fsqrt PInf = PInf"
| "fsqrt _ = NaN"

definition fpow :: "real \<Rightarrow> int \<Rightarrow> fl" where
  "fpow d n =
     (if 0 \<le> n then Fin (d ^ nat n)
      else if d = 0 then PInf
      else Fin (1 / d ^ nat (- n)))"

section \<open>Pytrees and the scan over time (jaxutils.scan)\<close>

text \<open>
  A pytree (a dictionary of arrays, possibly nested) is modelled by its flattened form:
  the list of key paths with their leaves, in the canonical order of
  \<^verbatim>\<open>jax.tree_util.tree_flatten\<close>. Its tree structure is the list of key paths, its
  leaves the list of values; \<^verbatim>\<open>treedef.unflatten\<close> pairs them again. A bare array is the
  pytree with the single, empty key path. An array stacked along time is a list.
\<close>

type_synonym 'v pytree = "(string \<times> 'v) list"

definition tree_structure :: "'v pytree \<Rightarrow> string list" where
  "tree_structure t = map fst t"

definition tree_leaves :: "'v pytree \<Rightarrow> 'v list" where
  "tree_leaves t = map snd t"

definition unflatten :: "string list \<Rightarrow> 'v list \<Rightarrow> 'v pytree" where
  "unflatten treedef leaves = zip treedef leaves"

text \<open>\<^verbatim>\<open>tree_map(lambda x: x[index], inputs)\<close>: the slice of every input leaf at one time step.\<close>

definition tree_index :: "('i list) pytree \<Rightarrow> nat \<Rightarrow> 'i pytree" where
  "tree_index inputs index = map (\<lambda>(k, x). (k, x ! index)) inputs"

text \<open>\<^verbatim>\<open>fn2 = lambda carry, inp: (fn(carry, inp),) * 2\<close>\<close>

definition fn2 :: "('c \<Rightarrow> 'x \<Rightarrow> 'c) \<Rightarrow> 'c \<Rightarrow> 'x \<Rightarrow> 'c \<times> 'c" where
  "fn2 fn carry inp = (fn carry inp, fn carry inp)"

text \<open>
  Modelled from the spec: \<^verbatim>\<open>nj.scan\<close> of the module \<^verbatim>\<open>ninjax\<close>, which is not among the
  sources. The spec calls it the strict sequential scan: the step is applied across time,
  each step to the carry the previous step returned, and the per-step outputs are
  returned stacked (with the final carry). \<open>scan_seq\<close> threads the carry; \<open>nj_scan\<close>
  slices the inputs along time and stacks each leaf of the outputs. With no step at all
  the stacked output has the structure of the carry and empty leaves.
\<close>

fun scan_seq :: "('c \<Rightarrow> 'x \<Rightarrow> 'c \<times> 'y) \<Rightarrow> 'c \<Rightarrow> 'x list \<Rightarrow> 'c \<times> 'y list" where
  "scan_seq f c [] = (c, [])"
| "scan_seq f c (x # xs) =
     (case f c x of (c', y) \<Rightarrow> (case scan_seq f c' xs of (final, ys) \<Rightarrow> (final, y # ys)))"

definition nj_scan ::
  "('v pytree \<Rightarrow> 'i pytree \<Rightarrow> 'v pytree \<times> 'w pytree) \<Rightarrow> 'v pytree \<Rightarrow> ('i list) pytree
     \<Rightarrow> 'v pytree \<times> ('w list) pytree" where
  "nj_scan f start inputs =
     (let n = (case inputs of [] \<Rightarrow> 0 | (k, x) # _ \<Rightarrow> length x);
          (final, ys) = scan_seq f start (map (tree_index inputs) [0..<n]);
          ydef = (case ys of [] \<Rightarrow> tree_structure start | y # _ \<Rightarrow> tree_structure y)
      in (final, map (\<lambda>(i, k). (k, map (\<lambda>y. snd (y ! i)) ys)) (enumerate 0 ydef)))"

text \<open>
  \<^verbatim>\<open>
  def scan(fn, inputs, start, unroll=True, modify=False):
      fn2 = lambda carry, inp: (fn(carry, inp),) * 2
      if not unroll:
          return nj.scan(fn2, start, inputs, modify=modify)[1]
      length = len(jax.tree_util.tree_leaves(inputs)[0])
      carrydef = jax.tree_util.tree_structure(start)
      carry = start
      outs = []
      for index in range(length):
          carry, out = fn2(carry, tree_map(lambda x: x[index], inputs))
          flat, treedef = jax.tree_util.tree_flatten(out)
          assert treedef == carrydef, (treedef, carrydef)
          outs.append(flat)
      outs = [jnp.stack([carry[i] for carry in outs], 0) for i in range(len(outs[0]))]
      return carrydef.unflatten(outs)
  \<close>
  \<open>unroll_loop\<close> is the \<^verbatim>\<open>for\<close> loop over the indices, with the carry and the list
  \<open>outs\<close> as state. Its failures are branches: an input leaf too short for the index
  (IndexError), the assertion on the tree structure; in \<open>scan\<close>, inputs without a leaf and
  \<^verbatim>\<open>outs[0]\<close> on an empty list (both IndexError).
\<close>

fun unroll_loop ::
  "('v pytree \<Rightarrow> 'i pytree \<Rightarrow> 'v pytree) \<Rightarrow> ('i list) pytree \<Rightarrow> string list \<Rightarrow> nat list
     \<Rightarrow> 'v pytree \<Rightarrow> 'v list list \<Rightarrow> error + 'v list list" where
  "unroll_loop fn inputs carrydef [] carry outs = Inr outs"
| "unroll_loop fn inputs carrydef (index # rest) carry outs =
     (if \<exists>x \<in> set (tree_leaves inputs). length x \<le> index then Inl IndexError
      else case fn2 fn carry (tree_index inputs index) of (carry', out) \<Rightarrow>
        if tree_structure out \<noteq> carrydef then Inl AssertionError
        else unroll_loop fn inputs carrydef rest carry' (outs @ [tree_leaves out]))"

definition scan ::
  "('v pytree \<Rightarrow> 'i pytree \<Rightarrow> 'v pytree) \<Rightarrow> ('i list) pytree \<Rightarrow> 'v pytree \<Rightarrow> bool
     \<Rightarrow> error + ('v list) pytree" where
  "scan fn inputs start unroll =
     (if \<not> unroll then Inr (snd (nj_scan (fn2 fn) start inputs))
      else if tree_leaves inputs = [] then Inl IndexError
      else
        let len = length (hd (tree_leaves inputs));
            carrydef = tree_structure start
        in case unroll_loop fn inputs carrydef [0..<len] start [] of
             Inl e \<Rightarrow> Inl e
           | Inr outs \<Rightarrow>
               if outs = [] then Inl IndexError
               else Inr (unflatten carrydef
                      (map (\<lambda>i. map (\<lambda>carry. carry ! i) outs) [0..<length (hd outs)])))"

section \<open>Imagined trajectories (agent.WorldModel.imagine)\<close>

text \<open>
  An imagined trajectory is a dictionary of arrays stacked along time: the entries of
  the latent state and the action (\<open>entries\<close>), the continuation flags (\<open>cont\<close>) and the
  survival weights (\<open>weight\<close>). The configuration holds the discount horizon, the
  \<open>\<lambda>\<close> of the return and the flag selecting the unrolled scan.
\<close>

record 'v trajectory =
  entries :: "('v list) pytree"
  cont :: "real list"
  weight :: "fl list"

record config =
  horizon :: real
  return_lambda :: real
  imag_unroll :: bool

text \<open>
  Dictionary operations on the flattened form: \<^verbatim>\<open>d[k] = v\<close> replaces the value of an
  existing key and appends a new key; \<^verbatim>\<open>d.pop(k)\<close> removes the key.
\<close>

definition dict_put :: "'v pytree \<Rightarrow> string \<Rightarrow> 'v \<Rightarrow> 'v pytree" where
  "dict_put d k v =
     (if k \<in> set (map fst d) then map (\<lambda>(k', v'). if k' = k then (k', v) else (k', v')) d
      else d @ [(k, v)])"

definition dict_del :: "'v pytree \<Rightarrow> string \<Rightarrow> 'v pytree" where
  "dict_del d k = filter (\<lambda>(k', v'). k' \<noteq> k) d"

text \<open>
  \<^verbatim>\<open>
  def step(prev, _):
      prev = prev.copy()
      state = self.rssm.img_step(prev, prev.pop("action"))
      return {**state, "action": policy(state)}
  \<close>
  The nested function \<open>step\<close> is \<open>imag_step\<close> here. The prior step \<open>img_step\<close> of the RSSM
  and the policy are parameters, both pure. The
  carry of \<open>imagine\<close> always holds an action (the start and every step put one), so the
  KeyError of \<^verbatim>\<open>pop\<close> is not reached; that branch leaves the carry as it is.
\<close>

definition imag_step ::
  "('v pytree \<Rightarrow> 'v \<Rightarrow> 'v pytree) \<Rightarrow> ('v pytree \<Rightarrow> 'v) \<Rightarrow> 'v pytree \<Rightarrow> nat pytree \<Rightarrow> 'v pytree" where
  "imag_step img_step policy prev inp =
     (case map_of prev ''action'' of
        None \<Rightarrow> prev
      | Some a \<Rightarrow>
          let state = img_step (dict_del prev ''action'') a
          in dict_put state ''action'' (policy state))"

text \<open>\<^verbatim>\<open>jnp.cumprod(x, 0)\<close>: the running product along time.\<close>

fun cumprod_from :: "real \<Rightarrow> real list \<Rightarrow> real list" where
  "cumprod_from acc [] = []"
| "cumprod_from acc (x # xs) = (acc * x) # cumprod_from (acc * x) xs"

definition cumprod :: "real list \<Rightarrow> real list" where
  "cumprod xs = cumprod_from 1 xs"

text \<open>
  \<^verbatim>\<open>
  def imagine(self, policy, start, horizon):
      first_cont = (1.0 - start["is_terminal"]).astype(jnp.float32)
      keys = list(self.rssm.initial(1).keys())
      start = {k: v for k, v in start.items() if k in keys}
      start["action"] = policy(start)
      def step(prev, _): ...
      traj = jaxutils.scan(step, jnp.arange(horizon), start, self.config.imag_unroll)
      traj = {k: jnp.concatenate([start[k][None], v], 0) for k, v in traj.items()}
      cont = self.heads["cont"](traj).mode()
      traj["cont"] = jnp.concatenate([first_cont[None], cont[1:]], 0)
      discount = 1 - 1 / self.config.horizon
      traj["weight"] = jnp.cumprod(discount * traj["cont"], 0) / discount
      return traj
  \<close>
  Parameters: the keys of \<^verbatim>\<open>self.rssm.initial(1)\<close>, the prior step, the mode of the
  continuation head on a stacked trajectory (\<open>cont_mode\<close>), the policy, the entries of
  \<open>start\<close>, its terminal flag \<^verbatim>\<open>start["is_terminal"]\<close> and the number of imagined
  steps. \<^verbatim>\<open>start[k]\<close> of a missing key and the Python division by a zero horizon are
  error branches; the division of the weights by the discount is a float division.
\<close>

definition imagine ::
  "config \<Rightarrow> string list \<Rightarrow> ('v pytree \<Rightarrow> 'v \<Rightarrow> 'v pytree) \<Rightarrow> (('v list) pytree \<Rightarrow> real list)
     \<Rightarrow> ('v pytree \<Rightarrow> 'v) \<Rightarrow> 'v pytree \<Rightarrow> real \<Rightarrow> nat \<Rightarrow> error + 'v trajectory" where
  "imagine cfg keys img_step cont_mode policy start is_terminal hor =
     (let first_cont = 1 - is_terminal;
          start1 = filter (\<lambda>(k, v). k \<in> set keys) start;
          start2 = dict_put start1 ''action'' (policy start1)
      in case scan (imag_step img_step policy) [([], [0..<hor])] start2 (imag_unroll cfg) of
           Inl e \<Rightarrow> Inl e
         | Inr traj \<Rightarrow>
             if \<exists>k \<in> set (map fst traj). map_of start2 k = None then Inl KeyError
             else
               let traj1 = map (\<lambda>(k, v). (k, the (map_of start2 k) # v)) traj;
                   cnt = cont_mode traj1;
                   traj_cont = first_cont # drop 1 cnt
               in if horizon cfg = 0 then Inl ZeroDivisionError
                  else
                    let discount = 1 - 1 / horizon cfg;
                        wgt = map (\<lambda>p. fdiv (Fin p) (Fin discount))
                                (cumprod (map (\<lambda>c. discount * c) traj_cont))
                    in Inr \<lparr>entries = traj1, cont = traj_cont, weight = wgt\<rparr>)"

section \<open>The \<open>\<lambda>\<close>-return of the critic (agent.VFunction.score)\<close>

text \<open>
  \<^verbatim>\<open>
  def score(self, traj, actor=None):
      rew = self.rewfn(traj)
      assert len(rew) == len(traj["action"]) - 1, ...
      discount = 1 - 1 / self.config.horizon
      disc = traj["cont"][1:] * discount
      value = self.net(traj).mean()
      vals = [value[-1]]
      interm = rew + disc * value[1:] * (1 - self.config.return_lambda)
      for t in reversed(range(len(disc))):
          vals.append(interm[t] + disc[t] * self.config.return_lambda * vals[-1])
      ret = jnp.stack(list(reversed(vals))[:-1])
      return rew, ret, value[:-1]
  \<close>
  The loop runs \<open>t\<close> from \<open>len(disc) - 1\<close> down to \<open>0\<close> and appends to \<open>vals\<close>;
  \<open>lambda_loop\<close> counts \<open>t\<close> down in the same order. The reward function and the
  critic network are parameters (\<open>rewfn\<close>, and \<open>net_mean\<close> for \<^verbatim>\<open>self.net(traj).mean()\<close>).
  The failures of the source are branches: a trajectory without actions, the assertion, the Python division by a zero
  horizon, \<^verbatim>\<open>value[-1]\<close> on an empty array, and \<^verbatim>\<open>jnp.stack\<close> of an empty list.
  The elementwise products pair equal positions of arrays of one length (all entries
  of a trajectory share the time axis).
\<close>

fun lambda_loop :: "real list \<Rightarrow> real list \<Rightarrow> real \<Rightarrow> nat \<Rightarrow> real list \<Rightarrow> real list" where
  "lambda_loop interm disc lam 0 vals = vals"
| "lambda_loop interm disc lam (Suc t) vals =
     lambda_loop interm disc lam t (vals @ [interm ! t + disc ! t * lam * last vals])"

definition score ::
  "config \<Rightarrow> ('v trajectory \<Rightarrow> real list) \<Rightarrow> ('v trajectory \<Rightarrow> real list)
     \<Rightarrow> 'v trajectory \<Rightarrow> error + (real list \<times> real list \<times> real list)" where
  "score cfg rewfn net_mean traj =
     (let rew = rewfn traj in
      case map_of (entries traj) ''action'' of
        None \<Rightarrow> Inl KeyError
      | Some acts \<Rightarrow>
      if int (length rew) \<noteq> int (length acts) - 1 then Inl AssertionError
      else if horizon cfg = 0 then Inl ZeroDivisionError
      else
        let discount = 1 - 1 / horizon cfg;
            disc = map (\<lambda>c. c * discount) (tl (cont traj));
            value = net_mean traj
        in if value = [] then Inl IndexError
           else
             let interm = map (\<lambda>(r, d, v). r + d * v * (1 - return_lambda cfg))
                            (zip rew (zip disc (tl value)));
                 vals = lambda_loop interm disc (return_lambda cfg) (length disc) [last value];
                 ret = butlast (rev vals)
             in if ret = [] then Inl ValueError
                else Inr (rew, ret, butlast value))"

section \<open>Straight-through sampling (jaxutils.OneHotDist.sample)\<close>

text \<open>
  Differentiation is modelled in forward mode: a dual number is a value (\<open>primal\<close>) with
  its derivative along one direction of the distribution parameters (\<open>tangent\<close>). Sums
  and differences act on both parts; \<^verbatim>\<open>jax.lax.stop_gradient\<close> (\<open>sg\<close>) keeps the value
  and has derivative zero. \<open>dexp\<close>, \<open>ddiv\<close> and \<open>dsum\<close> are the exponential, the quotient
  and the sum with their derivatives, and \<open>softmax_dual\<close> is the softmax of the logits, by
  which \<^verbatim>\<open>probs_parameter()\<close> of the distribution library computes the probabilities of
  a distribution given by logits.
\<close>

record dual =
  primal :: real
  tangent :: real

definition sg :: "dual \<Rightarrow> dual" where
  "sg x = \<lparr>primal = primal x, tangent = 0\<rparr>"

definition dadd :: "dual \<Rightarrow> dual \<Rightarrow> dual" where
  "dadd x y = \<lparr>primal = primal x + primal y, tangent = tangent x + tangent y\<rparr>"

definition dsub :: "dual \<Rightarrow> dual \<Rightarrow> dual" where
  "dsub x y = \<lparr>primal = primal x - primal y, tangent = tangent x - tangent y\<rparr>"

definition dexp :: "dual \<Rightarrow> dual" where
  "dexp x = \<lparr>primal = exp (primal x), tangent = exp (primal x) * tangent x\<rparr>"

definition ddiv :: "dual \<Rightarrow> dual \<Rightarrow> dual" where
  "ddiv x y = \<lparr>primal = primal x / primal y,
               tangent = (tangent x * primal y - primal x * tangent y) / (primal y) ^ 2\<rparr>"

definition dsum :: "dual list \<Rightarrow> dual" where
  "dsum xs = foldr dadd xs \<lparr>primal = 0, tangent = 0\<rparr>"

definition softmax_dual :: "dual list \<Rightarrow> dual list" where
  "softmax_dual logits = map (\<lambda>l. ddiv (dexp l) (dsum (map dexp logits))) logits"

text \<open>
  A tensor is its shape with its elements in row-major order.
  \<^verbatim>\<open>
  def sample(self, sample_shape=(), seed=None):
      sample = sg(super().sample(sample_shape, seed))
      probs = self._pad(super().probs_parameter(), sample.shape)
      return sg(sample) + (probs - sg(probs)).astype(sample.dtype)

  def _pad(self, tensor, shape):
      while len(tensor.shape) < len(shape):
          tensor = tensor[None]
      return tensor
  \<close>
  The hard sample \<^verbatim>\<open>super().sample(sample_shape, seed)\<close> and the probabilities are
  parameters of \<open>sample\<close>. \<open>pad\<close> is the loop of \<^verbatim>\<open>_pad\<close>: \<^verbatim>\<open>tensor[None]\<close> prepends an
  axis of size one. The difference is taken elementwise on tensors of one shape; the sum
  broadcasts the padded difference along the leading axes of the sample; shapes that do
  not fit raise an error. The cast to the dtype of the sample changes no value.
\<close>

record tensor =
  shape :: "nat list"
  elems :: "dual list"

definition tree_sg :: "tensor \<Rightarrow> tensor" where
  "tree_sg t = t\<lparr>elems := map sg (elems t)\<rparr>"

function pad :: "tensor \<Rightarrow> nat list \<Rightarrow> tensor" where
  "pad t shp = (if length (shape t) < length shp then pad (t\<lparr>shape := 1 # shape t\<rparr>) shp else t)"
  by pat_completeness auto
termination
  by (relation "measure (\<lambda>(t, shp). length shp - length (shape t))") auto

declare pad.simps [simp del]

definition tsub :: "tensor \<Rightarrow> tensor \<Rightarrow> error + tensor" where
  "tsub a b =
     (if shape a = shape b \<and> length (elems a) = length (elems b)
      then Inr \<lparr>shape = shape a, elems = map (\<lambda>(x, y). dsub x y) (zip (elems a) (elems b))\<rparr>
      else Inl ValueError)"

definition broadcast_add :: "tensor \<Rightarrow> tensor \<Rightarrow> error + tensor" where
  "broadcast_add s t =
     (let core = dropWhile (\<lambda>d. d = 1) (shape t)
      in if length (shape t) = length (shape s) \<and> elems t \<noteq> []
            \<and> drop (length (shape s) - length core) (shape s) = core
         then Inr \<lparr>shape = shape s,
                   elems = map (\<lambda>(i, x). dadd x (elems t ! (i mod length (elems t))))
                             (enumerate 0 (elems s))\<rparr>
         else Inl ValueError)"

definition sample :: "tensor \<Rightarrow> tensor \<Rightarrow> error + tensor" where
  "sample hard probs_parameter =
     (let smp = tree_sg hard;
          probs = pad probs_parameter (shape smp)
      in case tsub probs (tree_sg probs) of
           Inl e \<Rightarrow> Inl e
         | Inr diff \<Rightarrow> broadcast_add (tree_sg smp) diff)"

section \<open>Slow target copies (jaxutils.SlowUpdater, jaxutils.polyak_averaging)\<close>

text \<open>
  A parameter entry is an array (any non-equivariant pytree of arrays, flattened), an
  \<^verbatim>\<open>nn.R2Conv\<close> with its weights and its bias, or another \<^verbatim>\<open>nn.EquivariantModule\<close>.
  The source parameters are iterated over (a list of items); the destination is a
  dictionary that is read and assigned at single keys (a map).
\<close>

datatype param = Array "real list" | R2Conv "real list" "real list" | EquivariantModule "real list"

text \<open>\<^verbatim>\<open>jnp.clip(x, lo, hi)\<close> is \<^verbatim>\<open>minimum(maximum(x, lo), hi)\<close>.\<close>

definition clip :: "real \<Rightarrow> real \<Rightarrow> real \<Rightarrow> real" where
  "clip x lo hi = min (max x lo) hi"

text \<open>
  \<^verbatim>\<open>
  def polyak_averaging(src, dst, mix):
      for k, v in src.items():
          if isinstance(v, nn.EquivariantModule):
              if isinstance(v, nn.R2Conv):
                  dst[k].weights = nn.equinox.ParameterArray(
                      mix * v.weights.array + (1 - mix) * dst[k].weights.array)
                  dst[k].bias = nn.equinox.ParameterArray(
                      mix * v.bias.array + (1 - mix) * dst[k].bias.array)
          else:
              dst[k] = tree_map(lambda s, d: mix * s + (1 - mix) * d, v, dst[k])
      return dst
  \<close>
  \<open>lerp\<close> is the elementwise \<^verbatim>\<open>mix * s + (1 - mix) * d\<close> of two arrays of one shape;
  \<open>polyak_entry\<close> is the body of the loop for one item, given the current \<^verbatim>\<open>dst[k]\<close>:
  it returns the new entry, or the error of a missing key or of an entry of another kind
  or shape. An equivariant module that is not an \<^verbatim>\<open>R2Conv\<close> is passed over.
\<close>

definition lerp :: "real \<Rightarrow> real list \<Rightarrow> real list \<Rightarrow> error + real list" where
  "lerp mix s d =
     (if length s = length d then Inr (map (\<lambda>(s, d). mix * s + (1 - mix) * d) (zip s d))
      else Inl ValueError)"

definition polyak_entry :: "real \<Rightarrow> param \<Rightarrow> param option \<Rightarrow> error + param option" where
  "polyak_entry mix v dv =
     (case v of
        EquivariantModule _ \<Rightarrow> Inr dv
      | R2Conv w b \<Rightarrow>
          (case dv of
             None \<Rightarrow> Inl KeyError
           | Some (R2Conv dw db) \<Rightarrow>
               (case lerp mix w dw of
                  Inl e \<Rightarrow> Inl e
                | Inr w' \<Rightarrow> (case lerp mix b db of
                               Inl e \<Rightarrow> Inl e
                             | Inr b' \<Rightarrow> Inr (Some (R2Conv w' b'))))
           | Some _ \<Rightarrow> Inl AttributeError)
      | Array s \<Rightarrow>
          (case dv of
             None \<Rightarrow> Inl KeyError
           | Some (Array d) \<Rightarrow>
               (case lerp mix s d of Inl e \<Rightarrow> Inl e | Inr r \<Rightarrow> Inr (Some (Array r)))
           | Some _ \<Rightarrow> Inl ValueError))"

fun polyak_averaging ::
  "(string \<times> param) list \<Rightarrow> (string \<rightharpoonup> param) \<Rightarrow> real \<Rightarrow> error + (string \<rightharpoonup> param)" where
  "polyak_averaging [] dst mix = Inr dst"
| "polyak_averaging ((k, v) # src) dst mix =
     (case polyak_entry mix v (dst k) of
        Inl e \<Rightarrow> Inl e
      | Inr r \<Rightarrow> polyak_averaging src (dst(k := r)) mix)"

text \<open>
  \<^verbatim>\<open>
  def __call__(self):
      assert self.src.getm()
      updates = self.updates.read()
      need_init = (updates == 0).astype(jnp.float32)
      need_update = (updates % self.period == 0).astype(jnp.float32)
      mix = jnp.clip(1.0 * need_init + self.fraction * need_update, 0, 1)
      source = {k.replace(f"/{self.src.name}/", f"/{self.dst.name}/"): v
                for k, v in self.src.getm().items()}
      dist = self.dst.getm()
      self.dst.putm(polyak_averaging(source, dist, mix))
      self.updates.write(updates + 1)
  \<close>
  The counter \<open>updates\<close> is an \<^verbatim>\<open>int32\<close> variable, starting at zero; the remainder is
  the floored one of \<^verbatim>\<open>jnp.remainder\<close>. The renaming of the keys from the source module
  to the destination module is the parameter \<open>rename\<close>. The call returns the new
  destination parameters and the new counter.
\<close>

definition SlowUpdater_mix :: "real \<Rightarrow> int \<Rightarrow> 32 word \<Rightarrow> real" where
  "SlowUpdater_mix fraction period updates =
     (let need_init = (if updates = 0 then 1 else 0);
          need_update = (if sint updates mod period = 0 then 1 else 0)
      in clip (1.0 * need_init + fraction * need_update) 0 1)"

definition SlowUpdater_call ::
  "real \<Rightarrow> int \<Rightarrow> (string \<Rightarrow> string) \<Rightarrow> (string \<times> param) list \<Rightarrow> (string \<rightharpoonup> param)
     \<Rightarrow> 32 word \<Rightarrow> error + ((string \<rightharpoonup> param) \<times> 32 word)" where
  "SlowUpdater_call fraction period rename src dst updates =
     (if src = [] then Inl AssertionError
      else
        let mix = SlowUpdater_mix fraction period updates;
            source = map (\<lambda>(k, v). (rename k, v)) src
        in case polyak_averaging source dst mix of
             Inl e \<Rightarrow> Inl e
           | Inr d \<Rightarrow> Inr (d, updates + 1))"

text \<open>
  Source and destination fit together when the renamed source keys are distinct and
  every array or \<^verbatim>\<open>R2Conv\<close> of the source has a destination entry of the same kind and
  shape (the slow copy is a network of the same architecture).
\<close>

definition compatible :: "(string \<Rightarrow> string) \<Rightarrow> (string \<times> param) list \<Rightarrow> (string \<rightharpoonup> param) \<Rightarrow> bool" where
  "compatible rename src dst \<longleftrightarrow>
     distinct (map (rename \<circ> fst) src) \<and>
     (\<forall>(k, v) \<in> set src.
        case v of
          Array s \<Rightarrow> (\<exists>d. dst (rename k) = Some (Array d) \<and> length d = length s)
        | R2Conv w b \<Rightarrow> (\<exists>dw db. dst (rename k) = Some (R2Conv dw db)
                            \<and> length dw = length w \<and> length db = length b)
        | EquivariantModule _ \<Rightarrow> True)"

section \<open>The optimizer wrapper (jaxutils.Optimizer)\<close>

text \<open>
  Gradients, parameters and updates are dictionaries of arrays of floats (a list of keys
  with flattened arrays). The chain of optax transformations built by the constructor
  (clipping, Adam, weight decay, learning rate) is a parameter, a gradient transformation
  with its \<open>init\<close> and \<open>update\<close>. The optimizer holds the \<^verbatim>\<open>int32\<close> step counter, the
  flag \<open>scaling\<close> (mixed precision: \<^verbatim>\<open>COMPUTE_DTYPE == jnp.float16\<close>), the freeze
  threshold, the loss scale \<open>grad_scale\<close> (initially \<open>1e4\<close>), the counter of consecutive good
  steps and the state of the transformation, created at the first call. The fields carry
  the prefix \<open>opt_\<close>.
\<close>

type_synonym tensors = "(string \<times> fl list) list"

record 'st gradient_transformation =
  gt_init :: "tensors \<Rightarrow> 'st"
  gt_update :: "tensors \<Rightarrow> 'st \<Rightarrow> tensors \<Rightarrow> tensors \<times> 'st"

record 'st apply_if_finite_state =
  notfinite_count :: "32 word"
  last_finite :: bool
  total_notfinite :: "32 word"
  inner_state :: 'st

record 'st optimizer =
  opt_step :: "32 word"
  opt_scaling :: bool
  opt_freeze :: real
  opt_grad_scale :: real
  opt_good_steps :: "32 word"
  opt_state :: "'st apply_if_finite_state option"

text \<open>
  \<^verbatim>\<open>optax.scale(-lr)\<close>, the last link of the chain when there is no warmup: it has no
  state and multiplies every update by its factor.
\<close>

definition optax_scale :: "real \<Rightarrow> unit gradient_transformation" where
  "optax_scale factor =
     \<lparr>gt_init = (\<lambda>params. ()),
      gt_update = (\<lambda>updates state params.
         (map (\<lambda>(k, x). (k, map (\<lambda>v. fmul v (Fin factor)) x)) updates, state))\<rparr>"

definition Optimizer_init :: "bool \<Rightarrow> real \<Rightarrow> 'st optimizer" where
  "Optimizer_init scaling freeze =
     \<lparr>opt_step = 0, opt_scaling = scaling, opt_freeze = freeze, opt_grad_scale = 10000,
      opt_good_steps = 0, opt_state = None\<rparr>"

text \<open>
  \<^verbatim>\<open>
  def _update_scale(self, grads):
      finite = jnp.array(
          [jnp.isfinite(x).all() for x in jax.tree_util.tree_leaves(grads)]).all()
      keep = finite & (self.good_steps.read() < 1000)
      incr = finite & (self.good_steps.read() >= 1000)
      decr = ~finite
      self.good_steps.write(keep.astype(jnp.int32) * (self.good_steps.read() + 1))
      self.grad_scale.write(
          jnp.clip(
              keep.astype(jnp.float16) * self.grad_scale.read()
              + incr.astype(jnp.float16) * self.grad_scale.read() * 2
              + decr.astype(jnp.float16) * self.grad_scale.read() / 2,
              1e-4, 1e4))
      return finite
  \<close>
  \<open>update_scale\<close> takes the loss scale and the counter and returns their new values with
  the flag \<open>finite\<close>.
\<close>

definition all_finite :: "tensors \<Rightarrow> bool" where
  "all_finite grads = list_all (\<lambda>(k, x). list_all isfinite x) grads"

definition astype_float :: "bool \<Rightarrow> real" where
  "astype_float b = (if b then 1 else 0)"

definition update_scale :: "real \<Rightarrow> 32 word \<Rightarrow> tensors \<Rightarrow> real \<times> 32 word \<times> bool" where
  "update_scale grad_scale good_steps grads =
     (let finite = all_finite grads;
          keep = (finite \<and> sint good_steps < 1000);
          incr = (finite \<and> sint good_steps \<ge> 1000);
          decr = (\<not> finite)
      in (clip (astype_float keep * grad_scale
                + astype_float incr * grad_scale * 2
                + astype_float decr * grad_scale / 2) (1 / 10000) 10000,
          (if keep then 1 else 0) * (good_steps + 1),
          finite))"

text \<open>
  \<^verbatim>\<open>optax.apply_if_finite(inner, max_consecutive_errors)\<close> is a function of the optax
  library, modelled after its documented behaviour: an update whose gradients hold a NaN
  or an infinity is replaced by a zero update and the inner state is kept, for at most
  \<open>max_consecutive_errors\<close> consecutive such updates; after that many the wrapper gives up
  and passes the update on. Its counters are \<^verbatim>\<open>int32\<close> and saturate.
\<close>

definition safe_int32_increment :: "32 word \<Rightarrow> 32 word" where
  "safe_int32_increment count = (if sint count < 2147483647 then count + 1 else count)"

definition apply_if_finite_init :: "'st gradient_transformation \<Rightarrow> tensors \<Rightarrow> 'st apply_if_finite_state" where
  "apply_if_finite_init inner params =
     \<lparr>notfinite_count = 0, last_finite = True, total_notfinite = 0,
      inner_state = gt_init inner params\<rparr>"

definition zeros_like :: "tensors \<Rightarrow> tensors" where
  "zeros_like t = map (\<lambda>(k, x). (k, map (\<lambda>_. Fin 0) x)) t"

definition apply_if_finite_update ::
  "'st gradient_transformation \<Rightarrow> int \<Rightarrow> tensors \<Rightarrow> 'st apply_if_finite_state \<Rightarrow> tensors
     \<Rightarrow> tensors \<times> 'st apply_if_finite_state" where
  "apply_if_finite_update inner max_consecutive_errors updates state params =
     (let isfin = all_finite updates;
          count = (if isfin then 0 else safe_int32_increment (notfinite_count state));
          (ups, new_inner) =
             (if isfin \<or> sint count > max_consecutive_errors
              then gt_update inner updates (inner_state state) params
              else (zeros_like updates, inner_state state))
      in (ups, \<lparr>notfinite_count = count, last_finite = isfin,
                total_notfinite = (if isfin then total_notfinite state
                                   else safe_int32_increment (total_notfinite state)),
                inner_state = new_inner\<rparr>))"

text \<open>
  \<^verbatim>\<open>optax.apply_updates(params, updates)\<close> adds the updates to the parameters leaf by leaf;
  the two trees must have the same keys and shapes. \<^verbatim>\<open>optax.global_norm\<close> is the square
  root of the sum, over all leaves, of the sum of the squares.
\<close>

definition tree_shape :: "tensors \<Rightarrow> (string \<times> nat) list" where
  "tree_shape t = map (\<lambda>(k, x). (k, length x)) t"

definition apply_updates :: "tensors \<Rightarrow> tensors \<Rightarrow> error + tensors" where
  "apply_updates params updates =
     (if tree_shape params \<noteq> tree_shape updates
      then Inl ValueError
      else Inr (map (\<lambda>((k, p), (k', u)). (k, map (\<lambda>(a, b). fadd a b) (zip p u))) (zip params updates)))"

definition sum_fl :: "fl list \<Rightarrow> fl" where
  "sum_fl xs = foldl fadd (Fin 0) xs"

definition global_norm :: "tensors \<Rightarrow> fl" where
  "global_norm t = fsqrt (sum_fl (map (\<lambda>(k, x). sum_fl (map (\<lambda>v. fmul v v) x)) t))"

text \<open>
  The carve-out for the prototypes, with \<^verbatim>\<open>int(self.freeze)\<close> truncating towards zero:
  \<^verbatim>\<open>
  if "agent/wm/rssm/prototypes" in grads.keys():
      grads["agent/wm/rssm/prototypes"] = jax.lax.cond(
          self.step.read() < int(self.freeze),
          lambda _: grads["agent/wm/rssm/prototypes"] * 0.0,
          lambda _: grads["agent/wm/rssm/prototypes"],
          operand=None)
  \<close>
\<close>

definition py_int :: "real \<Rightarrow> int" where
  "py_int r = (if 0 \<le> r then \<lfloor>r\<rfloor> else \<lceil>r\<rceil>)"

definition freeze_prototypes :: "32 word \<Rightarrow> real \<Rightarrow> tensors \<Rightarrow> tensors" where
  "freeze_prototypes step freeze grads =
     (if ''agent/wm/rssm/prototypes'' \<in> set (map fst grads)
      then map (\<lambda>(k, g). if k = ''agent/wm/rssm/prototypes''
                            then (k, if sint step < py_int freeze
                                     then map (\<lambda>v. fmul v (Fin 0)) g else g)
                            else (k, g)) grads
      else grads)"

definition unscale :: "real \<Rightarrow> tensors \<Rightarrow> tensors" where
  "unscale grad_scale grads = map (\<lambda>(k, x). (k, map (\<lambda>v. fdiv v (Fin grad_scale)) x)) grads"

record metrics =
  grad_norm :: fl
  grad_steps :: "32 word"
  grad_scale :: "real option"
  grad_overflow :: "real option"

text \<open>
  \<^verbatim>\<open>
  def __call__(self, modules, lossfn, *args, has_aux=False, **kwargs):
      ...
      loss, params, grads, aux = nj.grad(wrapped, modules, has_aux=True)(*args, **kwargs)
      ...
      if self.scaling:
          grads = tree_map(lambda x: x / self.grad_scale.read(), grads)
          finite = self._update_scale(grads)
          metrics[f"{self.name}_grad_scale"] = self.grad_scale.read()
          metrics[f"{self.name}_grad_overflow"] = (~finite).astype(jnp.float32)
      optstate = self.get("state", self.opt.init, params)
      (the carve-out for the prototypes)
      updates, optstate = self.opt.update(grads, optstate, params)
      self.put("state", optstate)
      nj.context().update(optax.apply_updates(params, updates))
      norm = optax.global_norm(grads)
      if self.scaling:
          norm = jnp.where(jnp.isfinite(norm), norm, jnp.nan)
      self.step.write(self.step.read() + jnp.isfinite(norm).astype(jnp.int32))
      metrics["loss"] = loss.mean()
      metrics["grad_norm"] = norm
      metrics["grad_steps"] = self.step.read()
  \<close>
  The parameters and the gradients that \<^verbatim>\<open>nj.grad\<close> returns are inputs of the model. Its
  steps, in the order of the source: \<open>unscaled_grads\<close> is the division by the loss scale,
  \<open>scale_update\<close> the call of \<open>_update_scale\<close>, \<open>get_state\<close> the state of the
  transformation (created at the first call), \<open>frozen_grads\<close> the gradients after the
  carve-out, \<open>opt_update\<close> the call of \<^verbatim>\<open>self.opt.update\<close> (wrapped in
  \<open>apply_if_finite\<close> with \<open>max_consecutive_errors = 1000\<close> under mixed precision). The call
  returns the new optimizer, the new parameters and the metrics.
\<close>

definition unscaled_grads :: "'st optimizer \<Rightarrow> tensors \<Rightarrow> tensors" where
  "unscaled_grads self grads =
     (if opt_scaling self then unscale (opt_grad_scale self) grads else grads)"

definition get_state ::
  "'st gradient_transformation \<Rightarrow> 'st optimizer \<Rightarrow> tensors \<Rightarrow> 'st apply_if_finite_state" where
  "get_state inner self params =
     (case opt_state self of None \<Rightarrow> apply_if_finite_init inner params | Some s \<Rightarrow> s)"

definition frozen_grads :: "'st optimizer \<Rightarrow> tensors \<Rightarrow> tensors" where
  "frozen_grads self grads =
     freeze_prototypes (opt_step self) (opt_freeze self) (unscaled_grads self grads)"

definition opt_update ::
  "'st gradient_transformation \<Rightarrow> 'st optimizer \<Rightarrow> tensors \<Rightarrow> 'st apply_if_finite_state
     \<Rightarrow> tensors \<Rightarrow> tensors \<times> 'st apply_if_finite_state" where
  "opt_update inner self grads optstate params =
     (if opt_scaling self then apply_if_finite_update inner 1000 grads optstate params
      else (case gt_update inner grads (inner_state optstate) params of
              (u, i) \<Rightarrow> (u, optstate\<lparr>inner_state := i\<rparr>)))"

definition scale_update :: "'st optimizer \<Rightarrow> tensors \<Rightarrow> real \<times> 32 word \<times> bool" where
  "scale_update self grads =
     (if opt_scaling self
      then update_scale (opt_grad_scale self) (opt_good_steps self) (unscaled_grads self grads)
      else (opt_grad_scale self, opt_good_steps self, True))"

definition Optimizer_call ::
  "'st gradient_transformation \<Rightarrow> 'st optimizer \<Rightarrow> tensors \<Rightarrow> tensors
     \<Rightarrow> error + ('st optimizer \<times> tensors \<times> metrics)" where
  "Optimizer_call inner self params grads0 =
     (let (scale', good', finite) = scale_update self grads0;
          optstate = get_state inner self params;
          grads = frozen_grads self grads0;
          (updates, optstate') = opt_update inner self grads optstate params
      in case apply_updates params updates of
           Inl e \<Rightarrow> Inl e
         | Inr params' \<Rightarrow>
             let norm0 = global_norm grads;
                 norm = (if opt_scaling self then (if isfinite norm0 then norm0 else NaN)
                         else norm0);
                 step' = opt_step self + (if isfinite norm then 1 else 0)
             in Inr (self\<lparr>opt_step := step', opt_grad_scale := scale',
                           opt_good_steps := good', opt_state := Some optstate'\<rparr>,
                     params',
                     \<lparr>grad_norm = norm, grad_steps = step',
                      grad_scale = (if opt_scaling self then Some scale' else None),
                      grad_overflow = (if opt_scaling self
                                         then Some (astype_float (\<not> finite)) else None)\<rparr>))"


section \<open>Symmetric logarithm (jaxutils.symlog, jaxutils.symexp)\<close>

text \<open>
  Elementwise over the reals: \<^verbatim>\<open>jnp.sign\<close> is \<open>sgn\<close>, \<^verbatim>\<open>jnp.log\<close> is \<open>ln\<close>, \<^verbatim>\<open>jnp.abs\<close> is \<open>abs\<close>.
  \<^verbatim>\<open>
  def symlog(x):
      return jnp.sign(x) * jnp.log(1 + jnp.abs(x))
  def symexp(x):
      return jnp.sign(x) * (jnp.exp(jnp.abs(x)) - 1)
  \<close>
\<close>

definition symlog :: "real \<Rightarrow> real" where
  "symlog x = sgn x * ln (1 + \<bar>x\<bar>)"

definition symexp :: "real \<Rightarrow> real" where
  "symexp x = sgn x * (exp \<bar>x\<bar> - 1)"

text \<open>
  \<^verbatim>\<open>SymlogDist.mode\<close> and \<^verbatim>\<open>SymlogDist.mean\<close> return \<^verbatim>\<open>symexp(self._mode)\<close>.
\<close>

definition SymlogDist_mode :: "real \<Rightarrow> real" where
  "SymlogDist_mode mode = symexp mode"

definition SymlogDist_mean :: "real \<Rightarrow> real" where
  "SymlogDist_mean mode = symexp mode"

text \<open>
  \<^verbatim>\<open>DiscDist\<close>: \<^verbatim>\<open>probs = softmax(logits)\<close>, \<^verbatim>\<open>bins = linspace(low, high, n)\<close> with
  \<open>n\<close> the number of logits, and \<^verbatim>\<open>mean\<close> and \<^verbatim>\<open>mode\<close> are
  \<^verbatim>\<open>transbwd((probs * bins).sum(-1))\<close>; the default \<^verbatim>\<open>transbwd\<close> is \<^verbatim>\<open>symexp\<close>.
\<close>

definition softmax :: "real list \<Rightarrow> real list" where
  "softmax logits = map (\<lambda>l. exp l / sum_list (map exp logits)) logits"

definition linspace :: "real \<Rightarrow> real \<Rightarrow> nat \<Rightarrow> real list" where
  "linspace low high n =
     (if n = 1 then [low]
      else map (\<lambda>i. low + real i * ((high - low) / real (n - 1))) [0..<n])"

definition DiscDist_expect :: "real list \<Rightarrow> real \<Rightarrow> real \<Rightarrow> real" where
  "DiscDist_expect logits low high =
     sum_list (map (\<lambda>(p, b). p * b) (zip (softmax logits) (linspace low high (length logits))))"

definition DiscDist_mean :: "(real \<Rightarrow> real) \<Rightarrow> real list \<Rightarrow> real \<Rightarrow> real \<Rightarrow> real" where
  "DiscDist_mean transbwd logits low high = transbwd (DiscDist_expect logits low high)"

definition DiscDist_mode :: "(real \<Rightarrow> real) \<Rightarrow> real list \<Rightarrow> real \<Rightarrow> real \<Rightarrow> real" where
  "DiscDist_mode transbwd logits low high = transbwd (DiscDist_expect logits low high)"

section \<open>Running statistics for return normalisation (jaxutils.Moments)\<close>

text \<open>
  A \<open>Moments\<close> instance holds its configuration and its variables: the \<^verbatim>\<open>int32\<close> step
  counter and the float statistics (only those of the configured implementation are
  used). The fields carry the prefix \<open>mom_\<close>. The constructor accepts seven
  implementations and raises \<^verbatim>\<open>NotImplementedError\<close> for any other; all variables
  start at zero.
\<close>

record moments =
  mom_impl :: string
  mom_decay :: real
  mom_max :: real
  mom_eps :: real
  mom_perclo :: real
  mom_perchi :: real
  mom_step :: "32 word"
  mom_mean :: fl
  mom_sqrs :: fl
  mom_low :: fl
  mom_high :: fl
  mom_mag :: fl

definition Moments_init ::
  "string \<Rightarrow> real \<Rightarrow> real \<Rightarrow> real \<Rightarrow> real \<Rightarrow> real \<Rightarrow> error + moments" where
  "Moments_init impl decay maxb eps perclo perchi =
     (if impl \<in> set [''off'', ''mean_std'', ''min_max'', ''perc_ema'', ''perc_ema_corr'',
                      ''mean_mag'', ''max_mag'']
      then Inr \<lparr>mom_impl = impl, mom_decay = decay, mom_max = maxb, mom_eps = eps,
                mom_perclo = perclo, mom_perchi = perchi, mom_step = 0, mom_mean = Fin 0,
                mom_sqrs = Fin 0, mom_low = Fin 0, mom_high = Fin 0, mom_mag = Fin 0\<rparr>
      else Inl NotImplementedError)"




text \<open>
  \<^verbatim>\<open>
  def stats(self):
      if self.impl == "off":
          return 0.0, 1.0
      elif self.impl == "mean_std":
          corr = 1 - self.decay ** self.step.read().astype(jnp.float32)
          mean = self.mean.read() / corr
          var = (self.sqrs.read() / corr) - self.mean.read() ** 2
          std = jnp.sqrt(jnp.maximum(var, 1 / self.max**2) + self.eps)
          return sg(mean), sg(std)
      elif self.impl == "min_max":   (and "perc_ema")
          offset = self.low.read()
          invscale = jnp.maximum(1 / self.max, self.high.read() - self.low.read())
          return sg(offset), sg(invscale)
      elif self.impl == "perc_ema_corr":
          corr = 1 - self.decay ** self.step.read().astype(jnp.float32)
          lo = self.low.read() / corr
          hi = self.high.read() / corr
          invscale = jnp.maximum(1 / self.max, hi - lo)
          return sg(lo), sg(invscale)
      elif self.impl == "mean_mag":   (and "max_mag")
          offset = jnp.array(0)
          invscale = jnp.maximum(1 / self.max, self.mag.read())
          return sg(offset), sg(invscale)
      else: raise NotImplementedError(self.impl)
  \<close>
  The divisions by \<open>corr\<close> are float divisions; \<^verbatim>\<open>1 / self.max\<close> is a Python division
  and raises \<^verbatim>\<open>ZeroDivisionError\<close> for a zero bound.
\<close>

definition stats :: "moments \<Rightarrow> error + (fl \<times> fl)" where
  "stats s =
     (if mom_impl s = ''off'' then Inr (Fin 0, Fin 1)
      else if mom_impl s = ''mean_std'' then
        (let corr = fsub (Fin 1) (fpow (mom_decay s) (sint (mom_step s)));
             mean = fdiv (mom_mean s) corr;
             var = fsub (fdiv (mom_sqrs s) corr) (fmul (mom_mean s) (mom_mean s))
         in if mom_max s = 0 then Inl ZeroDivisionError
            else Inr (mean, fsqrt (fadd (fmax var (Fin (1 / (mom_max s) ^ 2))) (Fin (mom_eps s)))))
      else if mom_impl s = ''min_max'' \<or> mom_impl s = ''perc_ema'' then
        (if mom_max s = 0 then Inl ZeroDivisionError
         else Inr (mom_low s, fmax (Fin (1 / mom_max s)) (fsub (mom_high s) (mom_low s))))
      else if mom_impl s = ''perc_ema_corr'' then
        (let corr = fsub (Fin 1) (fpow (mom_decay s) (sint (mom_step s)));
             lo = fdiv (mom_low s) corr;
             hi = fdiv (mom_high s) corr
         in if mom_max s = 0 then Inl ZeroDivisionError
            else Inr (lo, fmax (Fin (1 / mom_max s)) (fsub hi lo)))
      else if mom_impl s = ''mean_mag'' \<or> mom_impl s = ''max_mag'' then
        (if mom_max s = 0 then Inl ZeroDivisionError
         else Inr (Fin 0, fmax (Fin (1 / mom_max s)) (mom_mag s)))
      else Inl NotImplementedError)"




chapter \<open>Properties\<close>

section \<open>The unrolled loop computes the sequential scan\<close>

lemma scan_seq_fn2_Cons:
  "scan_seq (fn2 fn) c (x # xs)
     = (fst (scan_seq (fn2 fn) (fn c x) xs), fn c x # snd (scan_seq (fn2 fn) (fn c x) xs))"
  by (simp add: fn2_def split: prod.splits)

lemma fn2_apply: "fn2 fn c x = (fn c x, fn c x)"
  by (simp add: fn2_def)

lemma scan_seq_structure:
  assumes "\<And>c x. tree_structure c = ks \<Longrightarrow> tree_structure (fn c x) = ks"
  shows "tree_structure carry = ks \<Longrightarrow>
    \<forall>y \<in> set (snd (scan_seq (fn2 fn) carry xs)). tree_structure y = ks"
proof (induction xs arbitrary: carry)
  case Nil
  then show ?case by simp
next
  case (Cons x xs)
  have "tree_structure (fn carry x) = ks" using assms Cons.prems by simp
  then show ?case using Cons.IH [of "fn carry x"]
    by (simp only: scan_seq_fn2_Cons) simp
qed

lemma scan_seq_length: "length (snd (scan_seq f c xs)) = length xs"
proof (induction xs arbitrary: c)
  case Nil
  then show ?case by simp
next
  case (Cons x xs)
  obtain c' y where f: "f c x = (c', y)" by (cases "f c x")
  obtain final ys where r: "scan_seq f c' xs = (final, ys)" by (cases "scan_seq f c' xs")
  show ?case using Cons.IH [of c'] f r by simp
qed

lemma unroll_loop_eq:
  assumes pres: "\<And>c x. tree_structure c = carrydef \<Longrightarrow> tree_structure (fn c x) = carrydef"
    and inb: "\<forall>x \<in> set (tree_leaves inputs). \<forall>i \<in> set idxs. i < length x"
    and cd: "tree_structure carry = carrydef"
  shows "unroll_loop fn inputs carrydef idxs carry outs
     = Inr (outs @ map tree_leaves (snd (scan_seq (fn2 fn) carry (map (tree_index inputs) idxs))))"
  using inb cd
proof (induction idxs arbitrary: carry outs)
  case Nil
  then show ?case by simp
next
  case (Cons i idxs)
  have a: "\<not> (\<exists>x \<in> set (tree_leaves inputs). length x \<le> i)"
    using Cons.prems(1) by fastforce
  have b: "tree_structure (fn carry (tree_index inputs i)) = carrydef"
    using pres Cons.prems(2) by simp
  have ih: "unroll_loop fn inputs carrydef idxs (fn carry (tree_index inputs i)) outs'
     = Inr (outs' @ map tree_leaves
          (snd (scan_seq (fn2 fn) (fn carry (tree_index inputs i)) (map (tree_index inputs) idxs))))"
    for outs'
    by (rule Cons.IH) (use Cons.prems(1) b in simp_all)
  have "unroll_loop fn inputs carrydef (i # idxs) carry outs
      = unroll_loop fn inputs carrydef idxs (fn carry (tree_index inputs i))
          (outs @ [tree_leaves (fn carry (tree_index inputs i))])"
    using a b by (simp add: fn2_apply)
  also note ih
  finally show ?case by (simp only: list.map scan_seq_fn2_Cons) simp
qed

lemma stack_eq:
  assumes "\<forall>y \<in> set ys. tree_structure y = ks"
  shows "unflatten ks (map (\<lambda>i. map (\<lambda>carry. carry ! i) (map tree_leaves ys)) [0..<length ks])
       = map (\<lambda>(i, k). (k, map (\<lambda>y. snd (y ! i)) ys)) (enumerate 0 ks)"
proof (rule nth_equalityI)
  show "length (unflatten ks (map (\<lambda>i. map (\<lambda>carry. carry ! i) (map tree_leaves ys)) [0..<length ks]))
      = length (map (\<lambda>(i, k). (k, map (\<lambda>y. snd (y ! i)) ys)) (enumerate 0 ks))"
    by (simp add: unflatten_def)
next
  fix j
  assume "j < length (unflatten ks (map (\<lambda>i. map (\<lambda>carry. carry ! i) (map tree_leaves ys)) [0..<length ks]))"
  then have j: "j < length ks" by (simp add: unflatten_def)
  have "map ((\<lambda>carry. carry ! j) \<circ> tree_leaves) ys = map (\<lambda>y. snd (y ! j)) ys"
  proof (rule map_cong [OF refl])
    fix y assume "y \<in> set ys"
    then have "length y = length ks"
      using assms by (auto simp: tree_structure_def dest: arg_cong [where f = length])
    then show "((\<lambda>carry. carry ! j) \<circ> tree_leaves) y = snd (y ! j)"
      using j by (simp add: tree_leaves_def)
  qed
  then have m: "map (\<lambda>carry. carry ! j) (map tree_leaves ys) = map (\<lambda>y. snd (y ! j)) ys"
    by simp
  show "unflatten ks (map (\<lambda>i. map (\<lambda>carry. carry ! i) (map tree_leaves ys)) [0..<length ks]) ! j
      = map (\<lambda>(i, k). (k, map (\<lambda>y. snd (y ! i)) ys)) (enumerate 0 ks) ! j"
    using j m by (simp add: unflatten_def nth_enumerate_eq)
qed


lemma scan_paths_agree:
  assumes pres: "\<And>c x. tree_structure c = tree_structure start
                  \<Longrightarrow> tree_structure (fn c x) = tree_structure start"
    and leaves: "tree_leaves inputs \<noteq> []"
    and same: "\<forall>x \<in> set (tree_leaves inputs). length x = n"
    and pos: "0 < n"
  shows "scan fn inputs start True = scan fn inputs start False
     \<and> (\<exists>stacked. scan fn inputs start True = Inr stacked
          \<and> tree_structure stacked = tree_structure start
          \<and> (\<forall>x \<in> set (tree_leaves stacked). length x = n))"
proof -
  define ys where "ys = snd (scan_seq (fn2 fn) start (map (tree_index inputs) [0..<n]))"
  define ks where "ks = tree_structure start"
  obtain k0 x0 rest where inp: "inputs = (k0, x0) # rest"
    using leaves by (cases inputs) (auto simp: tree_leaves_def)
  have hd_len: "length (hd (tree_leaves inputs)) = n"
    using same inp by (simp add: tree_leaves_def)
  have n_case: "(case inputs of [] \<Rightarrow> 0 | (k, x) # _ \<Rightarrow> length x) = n"
    using same inp by (simp add: tree_leaves_def)
  have len_ys: "length ys = n" by (simp add: ys_def scan_seq_length)
  have ys_ne: "ys \<noteq> []" using len_ys pos by auto
  have ys_struct: "\<forall>y \<in> set ys. tree_structure y = ks"
    unfolding ys_def ks_def by (rule scan_seq_structure [OF pres]) simp_all
  have hd_ys: "tree_structure (hd ys) = ks" using ys_struct ys_ne by simp
  have len_hd: "length (hd (map tree_leaves ys)) = length ks"
    using hd_ys ys_ne by (simp add: hd_map tree_leaves_def tree_structure_def [symmetric] ks_def)
      (metis length_map tree_structure_def)
  have loop: "unroll_loop fn inputs ks [0..<n] start [] = Inr (map tree_leaves ys)"
  proof -
    have p: "\<And>c x. tree_structure c = ks \<Longrightarrow> tree_structure (fn c x) = ks"
      using pres by (simp add: ks_def)
    have b: "\<forall>x \<in> set (tree_leaves inputs). \<forall>i \<in> set [0..<n]. i < length x"
      using same by simp
    have c: "tree_structure start = ks" by (simp add: ks_def)
    show ?thesis
      unfolding ys_def using unroll_loop_eq [of ks fn inputs "[0..<n]" start "[]", OF p b c]
      by simp
  qed
  define stacked where
    "stacked = map (\<lambda>(i, k). (k, map (\<lambda>y. snd (y ! i)) ys)) (enumerate 0 ks)"
  have unrolled: "scan fn inputs start True = Inr stacked"
    using leaves loop ys_ne len_hd stack_eq [OF ys_struct]
    by (simp add: scan_def Let_def hd_len ks_def [symmetric] stacked_def)
  have ydef: "(case ys of [] \<Rightarrow> tree_structure start | y # _ \<Rightarrow> tree_structure y) = ks"
    using hd_ys ys_ne by (cases ys) simp_all
  have lazy: "scan fn inputs start False = Inr stacked"
  proof -
    obtain final ys' where r: "scan_seq (fn2 fn) start (map (tree_index inputs) [0..<n]) = (final, ys')"
      by (cases "scan_seq (fn2 fn) start (map (tree_index inputs) [0..<n])")
    then have "ys' = ys" by (simp add: ys_def)
    then show ?thesis using r ydef
      by (simp add: scan_def nj_scan_def Let_def n_case stacked_def)
  qed
  have "map fst stacked = map snd (enumerate 0 ks)"
    by (simp add: stacked_def comp_def case_prod_unfold)
  then have st: "tree_structure stacked = tree_structure start"
    by (simp add: tree_structure_def [of stacked] ks_def)
  have ln: "\<forall>x \<in> set (tree_leaves stacked). length x = n"
    by (auto simp: stacked_def tree_leaves_def len_ys)
  show ?thesis using unrolled lazy st ln by simp
qed

section \<open>Imagined trajectories\<close>






lemma imag_step_structure:
  assumes keys: "\<And>s a. tree_structure (img_step s a) = tree_structure s"
    and na: "''action'' \<notin> set ks"
    and c: "tree_structure c = ks @ [''action'']"
  shows "tree_structure (imag_step img_step policy c x) = ks @ [''action'']"
proof -
  have "''action'' \<in> fst ` set c" using c by (auto simp: tree_structure_def dest!: arg_cong [where f = set])
  then obtain a where a: "map_of c ''action'' = Some a"
    by (metis map_of_eq_None_iff not_Some_eq)
  have "map fst (filter (\<lambda>(k', v'). k' \<noteq> ''action'') c) = filter (\<lambda>k'. k' \<noteq> ''action'') (map fst c)"
    by (induction c) auto
  then have d: "tree_structure (dict_del c ''action'') = ks"
    using c na by (auto simp: dict_del_def tree_structure_def filter_id_conv)
  have s: "tree_structure (img_step (dict_del c ''action'') a) = ks"
    using keys d by simp
  then have "''action'' \<notin> set (map fst (img_step (dict_del c ''action'') a))"
    using na by (simp add: tree_structure_def)
  then show ?thesis using a s
    by (simp add: imag_step_def Let_def dict_put_def tree_structure_def)
qed


lemma imagine_scan:
  fixes start :: "'v pytree"
  assumes hpos: "0 < hor"
    and na: "''action'' \<notin> set keys"
    and keysp: "\<And>s a. tree_structure (img_step s a) = tree_structure s"
    and startf_def: "startf = filter (\<lambda>(k, v). k \<in> set keys) start"
    and starta_def: "starta = dict_put startf ''action'' (policy startf)"
  shows "\<exists>stacked. (\<forall>b. scan (imag_step img_step policy) [([], [0..<hor])] starta b = Inr stacked)
      \<and> tree_structure stacked = tree_structure startf @ [''action'']
      \<and> tree_structure starta = tree_structure startf @ [''action'']
      \<and> (\<forall>x \<in> set (tree_leaves stacked). length x = hor)"
proof -
  define ks where "ks = tree_structure startf"
  have sub: "set ks \<subseteq> set keys" by (auto simp: ks_def startf_def tree_structure_def)
  then have na': "''action'' \<notin> set ks" using na by auto
  have s2: "tree_structure starta = ks @ [''action'']"
    using na' by (simp add: starta_def dict_put_def ks_def tree_structure_def)
  have pres: "tree_structure (imag_step img_step policy c x) = tree_structure starta"
    if "tree_structure c = tree_structure starta" for c x
    using imag_step_structure [where img_step = img_step and ks = ks and c = c and policy = policy
        and x = x, OF keysp na'] that s2 by simp
  have lv: "tree_leaves [([] :: string, [0..<hor])] \<noteq> []" by (simp add: tree_leaves_def)
  have sm: "\<forall>x \<in> set (tree_leaves [([] :: string, [0..<hor])]). length x = hor"
    by (simp add: tree_leaves_def)
  from scan_paths_agree [of starta "imag_step img_step policy", OF pres lv sm hpos]
  obtain stacked where eq: "scan (imag_step img_step policy) [([], [0..<hor])] starta True
        = scan (imag_step img_step policy) [([], [0..<hor])] starta False"
    and st: "scan (imag_step img_step policy) [([], [0..<hor])] starta True = Inr stacked"
    and str: "tree_structure stacked = tree_structure starta"
    and len: "\<forall>x \<in> set (tree_leaves stacked). length x = hor"
    by auto
  have "scan (imag_step img_step policy) [([], [0..<hor])] starta b = Inr stacked" for b
    using eq st by (cases b) simp_all
  then show ?thesis using str s2 len by (auto simp: ks_def)
qed



lemma imagine_paths_agree:
  fixes start :: "'v pytree"
  assumes hpos: "0 < hor"
    and na: "''action'' \<notin> set keys"
    and keysp: "\<And>s a. tree_structure (img_step s a) = tree_structure s"
  shows "imagine (cfg\<lparr>imag_unroll := True\<rparr>) keys img_step cont_mode policy start is_terminal hor
       = imagine (cfg\<lparr>imag_unroll := False\<rparr>) keys img_step cont_mode policy start is_terminal hor"
proof -
  define startf where "startf = filter (\<lambda>(k, v). k \<in> set keys) start"
  define starta where "starta = dict_put startf ''action'' (policy startf)"
  from imagine_scan [where hor = hor and keys = keys and img_step = img_step and start = start
      and policy = policy and startf = startf and starta = starta,
      OF hpos na keysp startf_def starta_def]
  obtain stacked where
    "\<And>b. scan (imag_step img_step policy) [([], [0..<hor])] starta b = Inr stacked"
    by blast
  then show ?thesis
    unfolding imagine_def Let_def startf_def [symmetric] starta_def [symmetric] by simp
qed


text \<open>
  Outside these conditions: on inputs without a time step the unrolled loop fails at
  \<^verbatim>\<open>outs[0]\<close>, and with a configured horizon of one the discount is zero and every
  weight is the float \<open>0 / 0\<close>.
\<close>

lemma scan_unroll_no_step: "scan fn [([], [])] start True = Inl IndexError"
  by (simp add: scan_def tree_leaves_def Let_def)

lemma weight_zero_discount:
  "map (\<lambda>p. fdiv (Fin p) (Fin 0)) (cumprod (map (\<lambda>c. 0 * c) cs)) = map (\<lambda>c. NaN) cs"
proof -
  have "cumprod_from a (map (\<lambda>c. 0 * c) cs) = map (\<lambda>c. 0) cs" for a
    by (induction cs arbitrary: a) simp_all
  then show ?thesis by (simp add: cumprod_def)
qed

text \<open>
  Claim C7. For a step function that returns a carry with the tree structure of the start
  carry, and inputs with at least one leaf whose leaves all hold \<open>n \<ge> 1\<close> time steps,
  \<open>jaxutils.scan\<close> returns the same stacked outputs with \<open>unroll=True\<close> (the Python loop
  with \<^verbatim>\<open>jnp.stack\<close>) as with \<open>unroll=False\<close> (the sequential scan); hence
  \<open>WorldModel.imagine\<close>, with at least one imagined step, returns the same trajectory for
  either setting of \<open>imag_unroll\<close>.
\<close>

theorem scan_unroll_equivalence:
  fixes start :: "'v pytree" and istart :: "'w pytree"
  assumes pres: "\<And>c x. tree_structure c = tree_structure start
                  \<Longrightarrow> tree_structure (fn c x) = tree_structure start"
    and leaves: "tree_leaves inputs \<noteq> []"
    and same: "\<forall>x \<in> set (tree_leaves inputs). length x = n"
    and pos: "0 < n"
    and hpos: "0 < hor"
    and na: "''action'' \<notin> set keys"
    and keysp: "\<And>s a. tree_structure (img_step s a) = tree_structure s"
  shows "scan fn inputs start True = scan fn inputs start False
     \<and> imagine (cfg\<lparr>imag_unroll := True\<rparr>) keys img_step cont_mode policy istart is_terminal hor
       = imagine (cfg\<lparr>imag_unroll := False\<rparr>) keys img_step cont_mode policy istart is_terminal hor"
  using scan_paths_agree [of start fn inputs n, OF pres leaves same pos]
    imagine_paths_agree [OF hpos na keysp]
  by simp

theorem scan_unroll_equivalence_witness:
  "scan (\<lambda>c x. map (\<lambda>(k, v). (k, v + 1)) c) [([], [0, 1 :: nat])] [(''x'', 0 :: real)] True
     = scan (\<lambda>c x. map (\<lambda>(k, v). (k, v + 1)) c) [([], [0, 1 :: nat])] [(''x'', 0 :: real)] False
   \<and> imagine (\<lparr>horizon = 2, return_lambda = 1 / 2, imag_unroll = True\<rparr>\<lparr>imag_unroll := True\<rparr>)
        [''deter''] (\<lambda>s a. map (\<lambda>(k, v). (k, v + a)) s) (\<lambda>e. map (\<lambda>_. 1 / 2) (snd (hd e)))
        (\<lambda>_. 1) [(''deter'', 0 :: real), (''is_first'', 1)] 0 2
     = imagine (\<lparr>horizon = 2, return_lambda = 1 / 2, imag_unroll = True\<rparr>\<lparr>imag_unroll := False\<rparr>)
        [''deter''] (\<lambda>s a. map (\<lambda>(k, v). (k, v + a)) s) (\<lambda>e. map (\<lambda>_. 1 / 2) (snd (hd e)))
        (\<lambda>_. 1) [(''deter'', 0 :: real), (''is_first'', 1)] 0 2"
proof (rule scan_unroll_equivalence [where n = 2])
  show "\<And>(c :: real pytree) (x :: nat pytree). tree_structure c = tree_structure [(''x'', 0 :: real)]
      \<Longrightarrow> tree_structure (map (\<lambda>(k, v). (k, v + 1)) c) = tree_structure [(''x'', 0 :: real)]"
    by (simp add: tree_structure_def comp_def case_prod_unfold)
  show "\<And>(s :: real pytree) a. tree_structure (map (\<lambda>(k, v). (k, v + a)) s) = tree_structure s"
    by (simp add: tree_structure_def comp_def case_prod_unfold)
qed (simp_all add: tree_leaves_def)

section \<open>The \<open>\<lambda>\<close>-return recursion\<close>

lemma lambda_loop_length: "length (lambda_loop i d l k vals) = length vals + k"
  by (induction k arbitrary: vals) auto

lemma lambda_loop_prefix: "j < length vals \<Longrightarrow> lambda_loop i d l k vals ! j = vals ! j"
  by (induction k arbitrary: vals) (auto simp: nth_append)

lemma lambda_loop_step:
  "vals \<noteq> [] \<Longrightarrow> t < k \<Longrightarrow>
   lambda_loop i d l k vals ! (length vals + (k - 1 - t))
     = i ! t + d ! t * l * lambda_loop i d l k vals ! (length vals + (k - 1 - t) - 1)"
proof (induction k arbitrary: vals)
  case 0
  then show ?case by simp
next
  case (Suc k)
  let ?x = "i ! k + d ! k * l * last vals"
  let ?vs = "vals @ [?x]"
  show ?case
  proof (cases "t = k")
    case True
    have a: "lambda_loop i d l k ?vs ! length vals = ?x"
      using lambda_loop_prefix [of "length vals" ?vs i d l k] by simp
    have b: "lambda_loop i d l k ?vs ! (length vals - 1) = last vals"
      using lambda_loop_prefix [of "length vals - 1" ?vs i d l k] Suc.prems(1)
      by (simp add: nth_append last_conv_nth)
    show ?thesis using True a b by simp
  next
    case False
    then have tk: "t < k" using Suc.prems(2) by simp
    have ih: "lambda_loop i d l k ?vs ! (length ?vs + (k - 1 - t))
        = i ! t + d ! t * l * lambda_loop i d l k ?vs ! (length ?vs + (k - 1 - t) - 1)"
      by (rule Suc.IH) (use tk in simp_all)
    have e1: "length ?vs + (k - 1 - t) = length vals + (Suc k - 1 - t)"
      using tk by simp
    have e2: "length ?vs + (k - 1 - t) - 1 = length vals + (Suc k - 1 - t) - 1"
      using tk by simp
    have "lambda_loop i d l k ?vs ! (length vals + (Suc k - 1 - t))
        = i ! t + d ! t * l * lambda_loop i d l k ?vs ! (length vals + (Suc k - 1 - t) - 1)"
      using ih unfolding e1 e2 .
    then show ?thesis by simp
  qed
qed


lemma geometric_closed_form:
  fixes ret val :: "nat \<Rightarrow> real"
  assumes base: "ret H = val H"
    and step: "\<And>t. t < H \<Longrightarrow> ret t = r + d * ((1 - l) * val (t + 1) + l * ret (t + 1))"
  shows "n \<le> H \<Longrightarrow>
    ret (H - n) = (\<Sum>k<n. (d * l) ^ k * (r + d * (1 - l) * val (H - n + k + 1))) + (d * l) ^ n * val H"
proof (induction n)
  case 0
  then show ?case by (simp add: base)
next
  case (Suc n)
  then have nH: "n < H" by simp
  have idx: "H - Suc n + 1 = H - n" using nH by simp
  have idxS: "Suc (H - Suc n) = H - n" using nH by simp
  have "ret (H - Suc n) = r + d * ((1 - l) * val (H - n) + l * ret (H - n))"
    using step [of "H - Suc n"] nH idx by simp
  also have "ret (H - n) =
      (\<Sum>k<n. (d * l) ^ k * (r + d * (1 - l) * val (H - n + k + 1))) + (d * l) ^ n * val H"
    using Suc.IH nH by simp
  finally have e: "ret (H - Suc n) = r + d * ((1 - l) * val (H - n)
      + l * ((\<Sum>k<n. (d * l) ^ k * (r + d * (1 - l) * val (H - n + k + 1))) + (d * l) ^ n * val H))" .
  have shift: "(\<Sum>k<Suc n. (d * l) ^ k * (r + d * (1 - l) * val (H - Suc n + k + 1)))
      = (r + d * (1 - l) * val (H - n))
        + (\<Sum>k<n. (d * l) ^ Suc k * (r + d * (1 - l) * val (H - Suc n + Suc k + 1)))"
    by (subst sum.lessThan_Suc_shift) (simp add: idxS)
  have idx2: "\<And>k. H - Suc n + Suc k + 1 = H - n + k + 1" using nH by simp
  have "(\<Sum>k<n. (d * l) ^ Suc k * (r + d * (1 - l) * val (H - Suc n + Suc k + 1)))
      = d * l * (\<Sum>k<n. (d * l) ^ k * (r + d * (1 - l) * val (H - n + k + 1)))"
    unfolding idx2 by (simp add: sum_distrib_left mult.assoc)
  with shift e show ?case by (simp add: algebra_simps)
qed

text \<open>
  Without any reward (a trajectory of the starting step alone) the list handed to
  \<^verbatim>\<open>jnp.stack\<close> is empty and the call fails.
\<close>

lemma score_no_reward:
  "score \<lparr>horizon = 2, return_lambda = 1, imag_unroll = True\<rparr> (\<lambda>_. []) (\<lambda>_. [v])
     \<lparr>entries = [(''action'', [a])], cont = [c], weight = []\<rparr> = Inl ValueError"
  by (simp add: score_def Let_def)

text \<open>
  Claim C1. For an imagined trajectory with \<open>H \<ge> 1\<close> rewards, \<open>H + 1\<close> actions,
  continuation flags and critic values, and a non-zero configured horizon,
  \<open>VFunction.score\<close> returns the rewards, a return sequence \<open>ret\<close> of length \<open>H\<close> and
  the values without the last one, where
  \<open>ret[t] = rew[t] + disc[t] * ((1 - \<lambda>) * value[t+1] + \<lambda> * ret[t+1])\<close>,
  \<open>ret[H]\<close> read as the terminal value \<open>value[H]\<close>, and
  \<open>disc[t] = cont[t+1] * (1 - 1 / horizon)\<close>. With constant reward \<open>r\<close> and constant
  continuation \<open>c\<close> (so a constant discount \<open>d = c * (1 - 1 / horizon)\<close>) every
  \<open>ret[t]\<close> is the geometric sum
  \<open>(\<Sum>k<H-t. (d\<lambda>)^k * (r + d * (1 - \<lambda>) * value[t+k+1])) + (d\<lambda>)^(H-t) * value[H]\<close>;
  the trajectory of length 3 is the instance \<open>H = 3\<close>.
\<close>

theorem score_lambda_return:
  fixes traj :: "'v trajectory"
  assumes hz: "horizon cfg \<noteq> 0"
    and ne: "rewfn traj \<noteq> []"
    and act: "map_of (entries traj) ''action'' = Some acts"
    and len_rew: "int (length (rewfn traj)) = int (length acts) - 1"
    and len_cont: "length (cont traj) = length acts"
    and len_val: "length (net_mean traj) = length acts"
  shows "\<exists>ret. score cfg rewfn net_mean traj = Inr (rewfn traj, ret, butlast (net_mean traj))
     \<and> length ret = length (rewfn traj)
     \<and> (\<forall>t < length (rewfn traj).
          ret ! t = rewfn traj ! t
            + (cont traj ! (t + 1) * (1 - 1 / horizon cfg))
              * ((1 - return_lambda cfg) * net_mean traj ! (t + 1)
                 + return_lambda cfg
                   * (if t + 1 < length (rewfn traj) then ret ! (t + 1)
                      else net_mean traj ! length (rewfn traj))))
     \<and> ((\<forall>t < length (rewfn traj). rewfn traj ! t = r \<and> cont traj ! (t + 1) = c) \<longrightarrow>
          (\<forall>t < length (rewfn traj).
            ret ! t =
              (\<Sum>k<length (rewfn traj) - t.
                  (c * (1 - 1 / horizon cfg) * return_lambda cfg) ^ k
                  * (r + c * (1 - 1 / horizon cfg) * (1 - return_lambda cfg)
                         * net_mean traj ! (t + k + 1)))
              + (c * (1 - 1 / horizon cfg) * return_lambda cfg) ^ (length (rewfn traj) - t)
                * net_mean traj ! length (rewfn traj)))"
proof -
  define rew where "rew = rewfn traj"
  define H where "H = length rew"
  define lam where "lam = return_lambda cfg"
  define discount where "discount = 1 - 1 / horizon cfg"
  define disc where "disc = map (\<lambda>c. c * discount) (tl (cont traj))"
  define val where "val = net_mean traj"
  define interm where
    "interm = map (\<lambda>(r, d, v). r + d * v * (1 - lam)) (zip rew (zip disc (tl val)))"
  define vals where "vals = lambda_loop interm disc lam (length disc) [last val]"
  define ret where "ret = butlast (rev vals)"
  have Hpos: "0 < H" using ne by (simp add: H_def rew_def)
  have len_act: "length acts = H + 1"
    using len_rew by (simp add: H_def rew_def)
  have len_disc: "length disc = H" by (simp add: disc_def len_cont len_act)
  have len_value: "length val = H + 1" by (simp add: val_def len_val len_act)
  have val_ne: "val \<noteq> []" using len_value by auto
  have len_interm: "length interm = H"
    by (simp add: interm_def len_disc len_value H_def)
  have len_vals: "length vals = H + 1"
    by (simp add: vals_def lambda_loop_length len_disc)
  have len_ret: "length ret = H" by (simp add: ret_def len_vals)
  have ret_ne: "ret \<noteq> []" using len_ret Hpos by auto
  have sc: "score cfg rewfn net_mean traj = Inr (rew, ret, butlast val)"
    using hz len_rew val_ne ret_ne act
    unfolding score_def Let_def rew_def [symmetric] val_def [symmetric] lam_def [symmetric]
      discount_def [symmetric] disc_def [symmetric] interm_def [symmetric]
      vals_def [symmetric] ret_def [symmetric]
    by simp
  have ret_nth: "ret ! t = vals ! (H - t)" if "t < H" for t
  proof -
    have "ret ! t = rev vals ! t"
      unfolding ret_def by (rule nth_butlast) (simp add: len_vals that)
    also have "\<dots> = vals ! (H - t)" using that by (simp add: rev_nth len_vals)
    finally show ?thesis .
  qed
  have vals0: "vals ! 0 = val ! H"
    using lambda_loop_prefix [of 0 "[last val]" interm disc lam "length disc"] val_ne len_value
    by (simp add: vals_def last_conv_nth)
  have interm_nth: "interm ! t = rew ! t + disc ! t * val ! (t + 1) * (1 - lam)" if "t < H" for t
    using that len_disc len_value by (simp add: interm_def H_def nth_tl)
  have disc_nth: "disc ! t = cont traj ! (t + 1) * discount" if "t < H" for t
    using that by (simp add: disc_def len_cont len_act nth_tl)
  have rec: "ret ! t = rew ! t + disc ! t
      * ((1 - lam) * val ! (t + 1) + lam * (if t + 1 < H then ret ! (t + 1) else val ! H))"
    if tH: "t < H" for t
  proof -
    have "vals ! (length [last val] + (length disc - 1 - t))
        = interm ! t + disc ! t * lam * vals ! (length [last val] + (length disc - 1 - t) - 1)"
      unfolding vals_def by (rule lambda_loop_step) (use tH len_disc in simp_all)
    moreover have "length [last val] + (length disc - 1 - t) = H - t"
      using tH len_disc by simp
    ultimately have a: "vals ! (H - t) = interm ! t + disc ! t * lam * vals ! (H - t - 1)"
      by (simp only:)
    have b: "vals ! (H - t - 1) = (if t + 1 < H then ret ! (t + 1) else val ! H)"
    proof (cases "t + 1 < H")
      case True
      then show ?thesis using ret_nth [of "t + 1"] by simp
    next
      case False
      then have "H - t - 1 = 0" using tH by simp
      then show ?thesis using False vals0 by simp
    qed
    show ?thesis
      using a b ret_nth [OF tH] interm_nth [OF tH] by (simp add: algebra_simps)
  qed
  have closed: "ret ! t =
        (\<Sum>k<H - t. (c * discount * lam) ^ k * (r + c * discount * (1 - lam) * val ! (t + k + 1)))
        + (c * discount * lam) ^ (H - t) * val ! H"
    if const: "\<forall>t < H. rew ! t = r \<and> cont traj ! (t + 1) = c" and tH: "t < H" for t
  proof -
    define R where "R = (\<lambda>t. if t < H then ret ! t else val ! H)"
    have base: "R H = (\<lambda>t. val ! t) H" by (simp add: R_def)
    have st: "R t = r + (c * discount) * ((1 - lam) * (\<lambda>t. val ! t) (t + 1) + lam * R (t + 1))"
      if "t < H" for t
      using rec [OF that] const that disc_nth [OF that] by (simp add: R_def)
    have "R (H - (H - t)) =
        (\<Sum>k<H - t. (c * discount * lam) ^ k
            * (r + c * discount * (1 - lam) * (\<lambda>t. val ! t) (H - (H - t) + k + 1)))
        + (c * discount * lam) ^ (H - t) * (\<lambda>t. val ! t) H"
      by (rule geometric_closed_form [OF base st]) simp_all
    moreover have "H - (H - t) = t" using tH by simp
    ultimately show ?thesis using tH by (simp add: R_def)
  qed
  show ?thesis
  proof (intro exI [of _ ret] conjI allI impI)
    show "score cfg rewfn net_mean traj = Inr (rewfn traj, ret, butlast (net_mean traj))"
      using sc by (simp add: rew_def val_def)
    show "length ret = length (rewfn traj)" using len_ret by (simp add: H_def rew_def)
  next
    fix t assume "t < length (rewfn traj)"
    then have tH: "t < H" by (simp add: H_def rew_def)
    show "ret ! t = rewfn traj ! t
            + (cont traj ! (t + 1) * (1 - 1 / horizon cfg))
              * ((1 - return_lambda cfg) * net_mean traj ! (t + 1)
                 + return_lambda cfg
                   * (if t + 1 < length (rewfn traj) then ret ! (t + 1)
                      else net_mean traj ! length (rewfn traj)))"
      using rec [OF tH] disc_nth [OF tH]
      by (simp add: H_def rew_def val_def lam_def discount_def)
  next
    fix t
    assume const: "\<forall>t < length (rewfn traj). rewfn traj ! t = r \<and> cont traj ! (t + 1) = c"
      and "t < length (rewfn traj)"
    then have tH: "t < H" and c': "\<forall>t < H. rew ! t = r \<and> cont traj ! (t + 1) = c"
      by (simp_all add: H_def rew_def)
    show "ret ! t =
              (\<Sum>k<length (rewfn traj) - t.
                  (c * (1 - 1 / horizon cfg) * return_lambda cfg) ^ k
                  * (r + c * (1 - 1 / horizon cfg) * (1 - return_lambda cfg)
                         * net_mean traj ! (t + k + 1)))
              + (c * (1 - 1 / horizon cfg) * return_lambda cfg) ^ (length (rewfn traj) - t)
                * net_mean traj ! length (rewfn traj)"
      using closed [OF c' tH] by (simp add: H_def rew_def val_def lam_def discount_def)
  qed
qed


theorem score_lambda_return_witness:
  "score \<lparr>horizon = 2, return_lambda = 1 / 2, imag_unroll = True\<rparr>
        (\<lambda>_. [1, 1, 1]) (\<lambda>_. [0, 0, 0, 8])
        \<lparr>entries = [(''action'', [0, 0, 0, 0 :: real])], cont = [1, 1, 1, 1], weight = []\<rparr>
       = Inr ([1, 1, 1], [25 / 16, 9 / 4, 5], [0, 0, 0])"
  using score_lambda_return [where cfg = "\<lparr>horizon = 2, return_lambda = 1 / 2, imag_unroll = True\<rparr>"
      and rewfn = "\<lambda>_. [1, 1, 1]"
      and traj = "\<lparr>entries = [(''action'', [0, 0, 0, 0 :: real])], cont = [1, 1, 1, 1], weight = []\<rparr>"
      and acts = "[0, 0, 0, 0]" and net_mean = "\<lambda>_. [0, 0, 0, 8]" and r = 1 and c = 1]
  by (simp add: score_def Let_def numeral_3_eq_3)

section \<open>The straight-through estimator\<close>

lemma pad_eq:
  "length (shape t) \<le> length shp \<Longrightarrow>
   pad t shp = t\<lparr>shape := replicate (length shp - length (shape t)) 1 @ shape t\<rparr>"
proof (induction t shp rule: pad.induct)
  case (1 t shp)
  show ?case
  proof (cases "length (shape t) < length shp")
    case True
    have e: "replicate (length shp - Suc (length (shape t))) (1 :: nat) @ 1 # shape t
          = replicate (length shp - length (shape t)) 1 @ shape t"
    proof -
      have "length shp - length (shape t) = Suc (length shp - Suc (length (shape t)))"
        using True by simp
      then show ?thesis by (simp add: replicate_app_Cons_same)
    qed
    have "pad t shp = pad (t\<lparr>shape := 1 # shape t\<rparr>) shp"
      using True by (subst pad.simps) simp
    also have "\<dots> = (t\<lparr>shape := 1 # shape t\<rparr>)\<lparr>shape :=
        replicate (length shp - length (shape (t\<lparr>shape := 1 # shape t\<rparr>))) 1
          @ shape (t\<lparr>shape := 1 # shape t\<rparr>)\<rparr>"
      by (rule "1.IH" [OF True]) (use True in simp)
    also have "\<dots> = t\<lparr>shape := replicate (length shp - length (shape t)) 1 @ shape t\<rparr>"
      using e by simp
    finally show ?thesis .
  next
    case False
    then have "length shp = length (shape t)" using "1.prems" by simp
    then show ?thesis by (subst pad.simps) simp
  qed
qed


lemma sg_sg: "sg (sg x) = sg x"
  by (simp add: sg_def)

lemma straight_through_elem:
  "dadd (sg h) (dsub p (sg p)) = \<lparr>primal = primal h, tangent = tangent p\<rparr>"
  by (simp add: dadd_def dsub_def sg_def)

lemma sample_result:
  assumes shp: "shape hard = sample_shape @ shape probs"
    and ne: "elems probs \<noteq> []"
  shows "\<exists>out. sample hard probs = Inr out
     \<and> shape out = shape hard \<and> length (elems out) = length (elems hard)
     \<and> (\<forall>i < length (elems hard).
           elems out ! i
             = dadd (sg (elems hard ! i))
                 (dsub (elems probs ! (i mod length (elems probs)))
                       (sg (elems probs ! (i mod length (elems probs))))))
     \<and> map primal (elems out) = map primal (elems hard)
     \<and> (\<forall>i < length (elems hard).
           tangent (elems out ! i) = tangent (elems probs ! (i mod length (elems probs))))
     \<and> (\<forall>k. map primal (elems hard) = (replicate (length (elems hard)) 0)[k := 1] \<longrightarrow>
              map primal (elems out) = (replicate (length (elems out)) 0)[k := 1])
     \<and> (length (elems probs) \<le> length (elems hard)
          \<and> (\<exists>j < length (elems probs). tangent (elems probs ! j) \<noteq> 0) \<longrightarrow>
            (\<exists>i < length (elems out). tangent (elems out ! i) \<noteq> 0))"
proof -
  let ?n = "length (elems probs)"
  define smp where "smp = tree_sg hard"
  define probs' where "probs' = pad probs (shape smp)"
  have sh_smp: "shape smp = shape hard" by (simp add: smp_def tree_sg_def)
  have le: "length (shape probs) \<le> length (shape smp)" by (simp add: sh_smp shp)
  have p': "probs' = probs\<lparr>shape := replicate (length sample_shape) 1 @ shape probs\<rparr>"
    unfolding probs'_def using pad_eq [OF le] by (simp add: sh_smp shp)
  define diff where "diff = \<lparr>shape = shape probs',
      elems = map (\<lambda>(x, y). dsub x y) (zip (elems probs') (elems (tree_sg probs')))\<rparr>"
  have ts: "tsub probs' (tree_sg probs') = Inr diff"
    by (simp add: tsub_def tree_sg_def diff_def)
  have el_diff: "elems diff = map (\<lambda>p. dsub p (sg p)) (elems probs)"
    by (simp add: diff_def p' tree_sg_def zip_map2 zip_same_conv_map)
  have len_diff: "length (elems diff) = ?n" by (simp add: el_diff)
  have sh_diff: "shape diff = replicate (length sample_shape) 1 @ shape probs"
    by (simp add: diff_def p')
  define core where "core = dropWhile (\<lambda>d. d = 1) (shape diff)"
  have core: "core = dropWhile (\<lambda>d. d = 1) (shape probs)"
    by (simp add: core_def sh_diff dropWhile_append)
  obtain pre where pre: "shape probs = pre @ core"
    using core by (metis takeWhile_dropWhile_id)
  have drop_ok: "drop (length (shape (tree_sg smp)) - length core) (shape (tree_sg smp)) = core"
    by (simp add: tree_sg_def sh_smp shp pre)
  have rank: "length (shape diff) = length (shape (tree_sg smp))"
    by (simp add: sh_diff tree_sg_def sh_smp shp)
  define out where "out = \<lparr>shape = shape (tree_sg smp),
      elems = map (\<lambda>(i, x). dadd x (elems diff ! (i mod length (elems diff))))
                (enumerate 0 (elems (tree_sg smp)))\<rparr>"
  have ne_diff: "elems diff \<noteq> []" using ne by (simp add: el_diff)
  have ba: "broadcast_add (tree_sg smp) diff = Inr out"
    using rank drop_ok [unfolded core_def] ne_diff
    by (simp add: broadcast_add_def Let_def out_def del: One_nat_def)
  have res: "sample hard probs = Inr out"
    using ts ba by (simp add: sample_def Let_def smp_def [symmetric] probs'_def [symmetric])
  have len_out: "length (elems out) = length (elems hard)"
    by (simp add: out_def tree_sg_def smp_def)
  have sh_out: "shape out = shape hard" by (simp add: out_def tree_sg_def smp_def)
  have npos: "0 < ?n" using ne by simp
  have el: "elems out ! i = dadd (sg (elems hard ! i))
                 (dsub (elems probs ! (i mod ?n)) (sg (elems probs ! (i mod ?n))))"
    if "i < length (elems hard)" for i
  proof -
    have "i mod ?n < ?n" using npos by simp
    then show ?thesis using that
      by (simp add: out_def tree_sg_def smp_def nth_enumerate_eq el_diff sg_sg)
  qed
  have el': "elems out ! i = \<lparr>primal = primal (elems hard ! i),
                              tangent = tangent (elems probs ! (i mod ?n))\<rparr>"
    if "i < length (elems hard)" for i
    using el [OF that] by (simp add: dadd_def dsub_def sg_def)
  have prim: "map primal (elems out) = map primal (elems hard)"
    by (rule nth_equalityI) (simp_all add: len_out el')
  have tang: "tangent (elems out ! i) = tangent (elems probs ! (i mod ?n))"
    if "i < length (elems hard)" for i
    using el' [OF that] by simp
  have nz: "\<exists>i < length (elems out). tangent (elems out ! i) \<noteq> 0"
    if le: "?n \<le> length (elems hard)" and ex: "\<exists>j < ?n. tangent (elems probs ! j) \<noteq> 0"
  proof -
    obtain j where j: "j < ?n" "tangent (elems probs ! j) \<noteq> 0" using ex by blast
    then have "j < length (elems hard)" using le by simp
    then have "tangent (elems out ! j) = tangent (elems probs ! j)"
      using tang [of j] j(1) by simp
    then show ?thesis using j \<open>j < length (elems hard)\<close> len_out by auto
  qed
  show ?thesis
    using res sh_out len_out el prim tang nz
    by (intro exI [of _ out] conjI allI impI) (simp_all add: len_out)
qed


lemma dsum_primal: "primal (dsum xs) = sum_list (map primal xs)"
  by (induction xs) (simp_all add: dsum_def dadd_def)

lemma dsum_tangent: "tangent (dsum xs) = sum_list (map tangent xs)"
  by (induction xs) (simp_all add: dsum_def dadd_def)

lemma sum_exp_pos: "(xs :: dual list) \<noteq> [] \<Longrightarrow> 0 < sum_list (map (\<lambda>x. exp (primal x)) xs)"
proof (induction xs)
  case Nil
  then show ?case by simp
next
  case (Cons x xs)
  have "0 \<le> sum_list (map (\<lambda>x. exp (primal x)) xs)"
    by (rule sum_list_nonneg) auto
  then show ?case by (simp add: add_pos_nonneg)
qed

lemma softmax_dual_gradient:
  fixes l0 :: dual and rest :: "dual list"
  assumes rest: "rest \<noteq> []" and t0: "tangent l0 \<noteq> 0" and tr: "\<forall>r \<in> set rest. tangent r = 0"
  shows "tangent (softmax_dual (l0 # rest) ! 0) \<noteq> 0"
proof -
  let ?R = "sum_list (map (\<lambda>x. exp (primal x)) rest)"
  let ?e = "exp (primal l0)"
  have R: "0 < ?R" by (rule sum_exp_pos [OF rest])
  have tz: "sum_list (map (tangent \<circ> dexp) rest) = 0"
    using tr by (induction rest) (simp_all add: dexp_def)
  have pS: "primal (dsum (map dexp (l0 # rest))) = ?e + ?R"
    by (simp add: dsum_primal dexp_def comp_def)
  have tS: "tangent (dsum (map dexp (l0 # rest))) = ?e * tangent l0"
    using tz by (simp add: dsum_tangent dexp_def comp_def)
  have "tangent (softmax_dual (l0 # rest) ! 0)
      = (?e * tangent l0 * (?e + ?R) - ?e * (?e * tangent l0)) / (?e + ?R) ^ 2"
    using pS tS by (simp add: softmax_dual_def ddiv_def) (simp add: dexp_def)
  also have "\<dots> = ?e * tangent l0 * ?R / (?e + ?R) ^ 2" by (simp add: algebra_simps)
  finally have "tangent (softmax_dual (l0 # rest) ! 0) = ?e * tangent l0 * ?R / (?e + ?R) ^ 2" .
  moreover have "?e * tangent l0 * ?R \<noteq> 0" using t0 R by simp
  moreover have "(?e + ?R) ^ 2 \<noteq> 0" using R by (simp add: add_pos_pos less_imp_neq [symmetric])
  ultimately show ?thesis by simp
qed

text \<open>
  Claim C2. For a hard sample of shape \<open>sample_shape @ shape probs\<close> and non-empty
  probabilities, \<open>OneHotDist.sample\<close> returns
  \<open>stop_gradient(hard sample) + (probs - stop_gradient(probs))\<close> elementwise, with the
  probabilities broadcast along the sample axes. Its forward value is exactly the hard
  sample (a one-hot vector stays that one-hot vector), and its derivative with respect to
  the distribution parameters is the derivative of the probabilities: it is non-zero
  wherever that of the probabilities is, and for probabilities computed by a softmax of at
  least two logits the derivative along the first logit is non-zero.
\<close>

theorem OneHotDist_sample_straight_through:
  assumes shp: "shape hard = sample_shape @ shape probs"
    and ne: "elems probs \<noteq> []"
  shows "(\<exists>out. sample hard probs = Inr out
     \<and> shape out = shape hard \<and> length (elems out) = length (elems hard)
     \<and> (\<forall>i < length (elems hard).
           elems out ! i
             = dadd (sg (elems hard ! i))
                 (dsub (elems probs ! (i mod length (elems probs)))
                       (sg (elems probs ! (i mod length (elems probs))))))
     \<and> map primal (elems out) = map primal (elems hard)
     \<and> (\<forall>i < length (elems hard).
           tangent (elems out ! i) = tangent (elems probs ! (i mod length (elems probs))))
     \<and> (\<forall>k. map primal (elems hard) = (replicate (length (elems hard)) 0)[k := 1] \<longrightarrow>
              map primal (elems out) = (replicate (length (elems out)) 0)[k := 1])
     \<and> (length (elems probs) \<le> length (elems hard)
          \<and> (\<exists>j < length (elems probs). tangent (elems probs ! j) \<noteq> 0) \<longrightarrow>
            (\<exists>i < length (elems out). tangent (elems out ! i) \<noteq> 0)))
   \<and> (\<forall>(l0 :: dual) (rest :: dual list) h. rest \<noteq> [] \<and> tangent l0 \<noteq> 0 \<and> (\<forall>r \<in> set rest. tangent r = 0)
          \<and> shape h = [Suc (length rest)] \<and> elems h \<noteq> [] \<longrightarrow>
          (\<exists>out. sample h \<lparr>shape = [Suc (length rest)], elems = softmax_dual (l0 # rest)\<rparr> = Inr out
             \<and> map primal (elems out) = map primal (elems h)
             \<and> tangent (elems out ! 0) \<noteq> 0))"
proof (intro conjI allI impI)
  show "\<exists>out. sample hard probs = Inr out
     \<and> shape out = shape hard \<and> length (elems out) = length (elems hard)
     \<and> (\<forall>i < length (elems hard).
           elems out ! i
             = dadd (sg (elems hard ! i))
                 (dsub (elems probs ! (i mod length (elems probs)))
                       (sg (elems probs ! (i mod length (elems probs))))))
     \<and> map primal (elems out) = map primal (elems hard)
     \<and> (\<forall>i < length (elems hard).
           tangent (elems out ! i) = tangent (elems probs ! (i mod length (elems probs))))
     \<and> (\<forall>k. map primal (elems hard) = (replicate (length (elems hard)) 0)[k := 1] \<longrightarrow>
              map primal (elems out) = (replicate (length (elems out)) 0)[k := 1])
     \<and> (length (elems probs) \<le> length (elems hard)
          \<and> (\<exists>j < length (elems probs). tangent (elems probs ! j) \<noteq> 0) \<longrightarrow>
            (\<exists>i < length (elems out). tangent (elems out ! i) \<noteq> 0))"
    by (rule sample_result [OF shp ne])
next
  fix l0 :: dual and rest :: "dual list" and h :: tensor
  assume a: "rest \<noteq> [] \<and> tangent l0 \<noteq> 0 \<and> (\<forall>r \<in> set rest. tangent r = 0)
          \<and> shape h = [Suc (length rest)] \<and> elems h \<noteq> []"
  let ?p = "\<lparr>shape = [Suc (length rest)], elems = softmax_dual (l0 # rest)\<rparr>"
  have s: "shape h = [] @ shape ?p" using a by simp
  have n: "elems ?p \<noteq> []" by (simp add: softmax_dual_def)
  from sample_result [OF s n] obtain out where
    r: "sample h ?p = Inr out" and p: "map primal (elems out) = map primal (elems h)"
    and t: "\<forall>i < length (elems h). tangent (elems out ! i)
              = tangent (elems ?p ! (i mod length (elems ?p)))"
    by blast
  have "0 < length (elems h)" using a by simp
  then have "tangent (elems out ! 0) = tangent (softmax_dual (l0 # rest) ! 0)"
    using t by (simp add: softmax_dual_def)
  then have "tangent (elems out ! 0) \<noteq> 0"
    using softmax_dual_gradient [of rest l0] a by simp
  then show "\<exists>out. sample h ?p = Inr out
             \<and> map primal (elems out) = map primal (elems h)
             \<and> tangent (elems out ! 0) \<noteq> 0"
    using r p by blast
qed

theorem OneHotDist_sample_straight_through_witness:
  "\<exists>out. sample \<lparr>shape = [2], elems = [\<lparr>primal = 0, tangent = 0\<rparr>, \<lparr>primal = 1, tangent = 0\<rparr>]\<rparr>
        \<lparr>shape = [2], elems = [\<lparr>primal = 1 / 4, tangent = 1\<rparr>, \<lparr>primal = 3 / 4, tangent = - 1\<rparr>]\<rparr>
      = Inr out
    \<and> map primal (elems out) = [0, 1]
    \<and> map tangent (elems out) = [1, - 1]"
proof -
  let ?h = "\<lparr>shape = [2], elems = [\<lparr>primal = 0, tangent = 0\<rparr>, \<lparr>primal = 1, tangent = 0\<rparr>]\<rparr>"
  let ?p = "\<lparr>shape = [2], elems = [\<lparr>primal = 1 / 4, tangent = 1\<rparr>, \<lparr>primal = 3 / 4, tangent = - 1\<rparr>]\<rparr>"
  have s: "shape ?h = [] @ shape ?p" by simp
  have n: "elems ?p \<noteq> []" by simp
  from OneHotDist_sample_straight_through [OF s n, THEN conjunct1] obtain out where
    r: "sample ?h ?p = Inr out" and l: "length (elems out) = length (elems ?h)"
    and p: "map primal (elems out) = map primal (elems ?h)"
    and t: "\<forall>i < length (elems ?h). tangent (elems out ! i)
              = tangent (elems ?p ! (i mod length (elems ?p)))"
    by blast
  have "tangent (elems out ! 0) = 1" "tangent (elems out ! 1) = - 1"
    using t by simp_all
  moreover have "length (elems out) = 2" using l by simp
  ultimately have "map tangent (elems out) = [1, - 1]"
    by (intro nth_equalityI) (auto simp: less_Suc_eq numeral_2_eq_2)
  then show ?thesis using r p by auto
qed

section \<open>The slow updater\<close>

lemma polyak_averaging_ok:
  assumes "distinct (map fst src)"
    and "\<forall>(k, v) \<in> set src. \<exists>r. polyak_entry mix v (dst k) = Inr r"
  shows "\<exists>dst'. polyak_averaging src dst mix = Inr dst'
     \<and> (\<forall>(k, v) \<in> set src. polyak_entry mix v (dst k) = Inr (dst' k))
     \<and> (\<forall>k. k \<notin> fst ` set src \<longrightarrow> dst' k = dst k)"
  using assms
proof (induction src arbitrary: dst)
  case Nil
  then show ?case by simp
next
  case (Cons kv src)
  obtain k v where kv: "kv = (k, v)" by (cases kv)
  obtain r where r: "polyak_entry mix v (dst k) = Inr r" using Cons.prems(2) kv by auto
  have knot: "k \<notin> fst ` set src" using Cons.prems(1) kv by auto
  have same: "(dst(k := r)) k' = dst k'" if "k' \<in> fst ` set src" for k'
    using that knot by auto
  have pre: "\<forall>(k', v') \<in> set src. \<exists>r'. polyak_entry mix v' ((dst(k := r)) k') = Inr r'"
    using Cons.prems(2) knot by (auto simp: rev_image_eqI)
  have "distinct (map fst src)" using Cons.prems(1) by simp
  from Cons.IH [OF this pre] obtain dst' where
    a: "polyak_averaging src (dst(k := r)) mix = Inr dst'"
    and b: "\<forall>(k', v') \<in> set src. polyak_entry mix v' ((dst(k := r)) k') = Inr (dst' k')"
    and c: "\<forall>k'. k' \<notin> fst ` set src \<longrightarrow> dst' k' = (dst(k := r)) k'"
    by blast
  have res: "polyak_averaging (kv # src) dst mix = Inr dst'" using a r kv by simp
  have dk: "dst' k = r" using c knot by simp
  have b': "\<forall>(k', v') \<in> set (kv # src). polyak_entry mix v' (dst k') = Inr (dst' k')"
  proof -
    have "polyak_entry mix v' (dst k') = Inr (dst' k')" if "(k', v') \<in> set src" for k' v'
    proof -
      have "k' \<in> fst ` set src" using that by (auto simp: rev_image_eqI)
      then have "(dst(k := r)) k' = dst k'" by (rule same)
      then show ?thesis using b that by fastforce
    qed
    then show ?thesis using kv r dk by auto
  qed
  have c': "\<forall>k'. k' \<notin> fst ` set (kv # src) \<longrightarrow> dst' k' = dst k'"
    using c kv by auto
  show ?case using res b' c' by blast
qed

lemma SlowUpdater_mix_value:
  assumes "0 \<le> fraction" "fraction \<le> 1"
  shows "SlowUpdater_mix fraction period updates
     = (if updates = 0 then 1 else if period dvd sint updates then fraction else 0)"
  using assms by (auto simp: SlowUpdater_mix_def clip_def Let_def mod_eq_0_iff_dvd)

lemma lerp_one: "length s = length d \<Longrightarrow> lerp 1 s d = Inr s"
  by (auto simp: lerp_def intro!: nth_equalityI)

lemma lerp_zero: "length s = length d \<Longrightarrow> lerp 0 s d = Inr d"
  by (auto simp: lerp_def intro!: nth_equalityI)


lemma polyak_entry_Array:
  "length d = length s \<Longrightarrow> polyak_entry mix (Array s) (Some (Array d))
     = Inr (Some (Array (map (\<lambda>(s, d). mix * s + (1 - mix) * d) (zip s d))))"
  by (simp add: polyak_entry_def lerp_def)

lemma polyak_entry_R2Conv:
  "length dw = length w \<Longrightarrow> length db = length b \<Longrightarrow>
   polyak_entry mix (R2Conv w b) (Some (R2Conv dw db))
     = Inr (Some (R2Conv (map (\<lambda>(s, d). mix * s + (1 - mix) * d) (zip w dw))
                         (map (\<lambda>(s, d). mix * s + (1 - mix) * d) (zip b db))))"
  by (simp add: polyak_entry_def lerp_def)

lemma polyak_entry_Equivariant: "polyak_entry mix (EquivariantModule m) dv = Inr dv"
  by (simp add: polyak_entry_def)

lemma blend_one: "length d = length s \<Longrightarrow> map (\<lambda>(s, d). 1 * s + (1 - 1) * d) (zip s d) = (s :: real list)"
  by (auto intro!: nth_equalityI)

lemma blend_zero: "length d = length s \<Longrightarrow> map (\<lambda>(s, d). 0 * s + (1 - 0) * d) (zip s d) = (d :: real list)"
  by (auto intro!: nth_equalityI)

text \<open>The mix is clipped to \<open>[0, 1]\<close>, so a fraction outside this interval is not the mix.\<close>

lemma SlowUpdater_mix_clipped:
  "0 \<le> SlowUpdater_mix fraction period updates \<and> SlowUpdater_mix fraction period updates \<le> 1"
  by (simp add: SlowUpdater_mix_def clip_def Let_def)

text \<open>
  Claim C5. For a SlowUpdater with fraction \<open>f\<close> in \<open>[0, 1]\<close> and period \<open>p > 0\<close>, on
  non-empty source parameters that fit the destination: the mix is \<open>1\<close> when the update
  counter is \<open>0\<close> (the first call: every array and every \<open>R2Conv\<close> of the source is copied
  to the destination, whatever \<open>f\<close> is), it is \<open>f\<close> at every other counter that is a
  multiple of \<open>p\<close> (\<open>dst \<leftarrow> f * src + (1 - f) * dst\<close>), and it is \<open>0\<close> at all other counters
  (the destination is unchanged); every call adds \<open>1\<close> to the counter. Equivariant modules
  other than \<open>R2Conv\<close> and keys outside the source are left as they are.
\<close>

theorem SlowUpdater_call_blend:
  assumes fr0: "0 \<le> fraction" and fr1: "fraction \<le> 1" and per: "0 < period"
    and ne: "src \<noteq> []"
    and compat: "compatible rename src dst"
  shows "SlowUpdater_mix fraction period updates
       = (if updates = 0 then 1 else if period dvd sint updates then fraction else 0)
   \<and> (\<exists>dst'. SlowUpdater_call fraction period rename src dst updates = Inr (dst', updates + 1)
       \<and> (\<forall>k s d. (k, Array s) \<in> set src \<and> dst (rename k) = Some (Array d) \<longrightarrow>
             dst' (rename k) = Some (Array (map (\<lambda>(s, d).
                 SlowUpdater_mix fraction period updates * s
                 + (1 - SlowUpdater_mix fraction period updates) * d) (zip s d))))
       \<and> (\<forall>k w b dw db. (k, R2Conv w b) \<in> set src \<and> dst (rename k) = Some (R2Conv dw db) \<longrightarrow>
             dst' (rename k) = Some (R2Conv
               (map (\<lambda>(s, d). SlowUpdater_mix fraction period updates * s
                 + (1 - SlowUpdater_mix fraction period updates) * d) (zip w dw))
               (map (\<lambda>(s, d). SlowUpdater_mix fraction period updates * s
                 + (1 - SlowUpdater_mix fraction period updates) * d) (zip b db))))
       \<and> (\<forall>k m. (k, EquivariantModule m) \<in> set src \<longrightarrow> dst' (rename k) = dst (rename k))
       \<and> (\<forall>k'. k' \<notin> (rename \<circ> fst) ` set src \<longrightarrow> dst' k' = dst k')
       \<and> (updates = 0 \<longrightarrow>
             (\<forall>k s. (k, Array s) \<in> set src \<longrightarrow> dst' (rename k) = Some (Array s))
           \<and> (\<forall>k w b. (k, R2Conv w b) \<in> set src \<longrightarrow> dst' (rename k) = Some (R2Conv w b)))
       \<and> (updates \<noteq> 0 \<and> \<not> period dvd sint updates \<longrightarrow> dst' = dst))"
proof -
  define mix where "mix = SlowUpdater_mix fraction period updates"
  define source where "source = map (\<lambda>(k, v). (rename k, v)) src"
  have mixv: "mix = (if updates = 0 then 1 else if period dvd sint updates then fraction else 0)"
    unfolding mix_def by (rule SlowUpdater_mix_value [OF fr0 fr1])
  have dist: "distinct (map fst source)"
    using compat by (simp add: compatible_def source_def comp_def case_prod_unfold)
  have cases: "case v of
          Array s \<Rightarrow> (\<exists>d. dst (rename k) = Some (Array d) \<and> length d = length s)
        | R2Conv w b \<Rightarrow> (\<exists>dw db. dst (rename k) = Some (R2Conv dw db)
                            \<and> length dw = length w \<and> length db = length b)
        | EquivariantModule _ \<Rightarrow> True" if "(k, v) \<in> set src" for k v
    using compat that by (auto simp: compatible_def)
  have ok: "\<exists>r. polyak_entry mix v (dst (rename k)) = Inr r" if "(k, v) \<in> set src" for k v
    using cases [OF that]
    by (cases v) (auto simp: polyak_entry_Array polyak_entry_R2Conv polyak_entry_Equivariant)
  have pre: "\<forall>(k, v) \<in> set source. \<exists>r. polyak_entry mix v (dst k) = Inr r"
    using ok by (auto simp: source_def)
  from polyak_averaging_ok [OF dist pre] obtain dst' where
    pa: "polyak_averaging source dst mix = Inr dst'"
    and ent: "\<forall>(k, v) \<in> set source. polyak_entry mix v (dst k) = Inr (dst' k)"
    and frame: "\<forall>k. k \<notin> fst ` set source \<longrightarrow> dst' k = dst k"
    by blast
  have ent': "polyak_entry mix v (dst (rename k)) = Inr (dst' (rename k))"
    if "(k, v) \<in> set src" for k v
    using ent that by (force simp: source_def)
  have call: "SlowUpdater_call fraction period rename src dst updates = Inr (dst', updates + 1)"
    using ne pa by (simp add: SlowUpdater_call_def Let_def mix_def source_def)
  have arr: "dst' (rename k) = Some (Array (map (\<lambda>(s, d). mix * s + (1 - mix) * d) (zip s d)))"
    if "(k, Array s) \<in> set src" "dst (rename k) = Some (Array d)" for k s d
    using ent' [OF that(1)] cases [OF that(1)] that(2) by (simp add: polyak_entry_Array)
  have conv: "dst' (rename k) = Some (R2Conv (map (\<lambda>(s, d). mix * s + (1 - mix) * d) (zip w dw))
                         (map (\<lambda>(s, d). mix * s + (1 - mix) * d) (zip b db)))"
    if "(k, R2Conv w b) \<in> set src" "dst (rename k) = Some (R2Conv dw db)" for k w b dw db
    using ent' [OF that(1)] cases [OF that(1)] that(2) by (simp add: polyak_entry_R2Conv)
  have eqv: "dst' (rename k) = dst (rename k)" if "(k, EquivariantModule m) \<in> set src" for k m
    using ent' [OF that] by (simp add: polyak_entry_Equivariant)
  have fr: "dst' k' = dst k'" if "k' \<notin> (rename \<circ> fst) ` set src" for k'
  proof -
    have "fst ` set source = (rename \<circ> fst) ` set src"
      by (force simp: source_def image_iff)
    then show ?thesis using frame that by simp
  qed
  have copy_arr: "dst' (rename k) = Some (Array s)"
    if u0: "updates = 0" and mem: "(k, Array s) \<in> set src" for k s
  proof -
    obtain d where d: "dst (rename k) = Some (Array d)" "length d = length s"
      using cases [OF mem] by auto
    have "mix = 1" using mixv u0 by simp
    then show ?thesis using arr [OF mem d(1)] blend_one [OF d(2)] by simp
  qed
  have copy_conv: "dst' (rename k) = Some (R2Conv w b)"
    if u0: "updates = 0" and mem: "(k, R2Conv w b) \<in> set src" for k w b
  proof -
    obtain dw db where d: "dst (rename k) = Some (R2Conv dw db)"
        "length dw = length w" "length db = length b"
      using cases [OF mem] by auto
    have "mix = 1" using mixv u0 by simp
    then show ?thesis
      using conv [OF mem d(1)] blend_one [OF d(2)] blend_one [OF d(3)] by simp
  qed
  have unchanged: "dst' = dst" if un: "updates \<noteq> 0" "\<not> period dvd sint updates"
  proof (rule ext)
    fix k'
    have m0: "mix = 0" using mixv un by simp
    show "dst' k' = dst k'"
    proof (cases "k' \<in> (rename \<circ> fst) ` set src")
      case False
      then show ?thesis by (rule fr)
    next
      case True
      then obtain k v where kv: "(k, v) \<in> set src" "k' = rename k" by force
      show ?thesis
      proof (cases v)
        case (Array s)
        then obtain d where d: "dst (rename k) = Some (Array d)" "length d = length s"
          using cases [OF kv(1)] by auto
        show ?thesis
          using arr [of k s d] kv Array d m0 blend_zero [OF d(2)] by simp
      next
        case (R2Conv w b)
        then obtain dw db where d: "dst (rename k) = Some (R2Conv dw db)"
            "length dw = length w" "length db = length b"
          using cases [OF kv(1)] by auto
        show ?thesis
          using conv [of k w b dw db] kv R2Conv d(1) m0 blend_zero [OF d(2)] blend_zero [OF d(3)]
          by simp
      next
        case (EquivariantModule m)
        then show ?thesis using eqv [of k m] kv by simp
      qed
    qed
  qed
  show ?thesis
    unfolding mix_def [symmetric]
    using mixv call arr conv eqv fr copy_arr copy_conv unchanged
    by (intro conjI exI [of _ dst']) blast+
qed


theorem SlowUpdater_call_blend_witness:
  "SlowUpdater_mix (1 / 2) 2 0 = 1
   \<and> (\<exists>dst'. SlowUpdater_call (1 / 2) 2 (\<lambda>k. k) [(''w'', Array [2, 4])]
                [''w'' \<mapsto> Array [0, 0]] 0 = Inr (dst', 1)
        \<and> dst' ''w'' = Some (Array [2, 4]))"
proof -
  have f0: "(0 :: real) \<le> 1 / 2" and f1: "(1 / 2 :: real) \<le> 1" and p: "(0 :: int) < 2" by simp_all
  have ne: "[(''w'', Array [2, 4])] \<noteq> []" by simp
  have c: "compatible (\<lambda>k. k) [(''w'', Array [2, 4])] [''w'' \<mapsto> Array [0, 0]]"
    by (simp add: compatible_def)
  show ?thesis
    using SlowUpdater_call_blend [OF f0 f1 p ne c, of 0] by auto
qed

section \<open>The optimizer wrapper\<close>









lemma isfinite_fmul_zero: "isfinite (fmul v (Fin 0)) \<longleftrightarrow> isfinite v"
  by (cases v) auto


lemma isfinite_fdiv: "c \<noteq> 0 \<Longrightarrow> isfinite (fdiv v (Fin c)) \<longleftrightarrow> isfinite v"
  by (cases v) auto

lemma all_finite_map:
  assumes "\<And>k v. isfinite (f k v) \<longleftrightarrow> isfinite v"
  shows "all_finite (map (\<lambda>(k, x). (k, map (f k) x)) t) = all_finite t"
proof (induction t)
  case Nil
  then show ?case by (simp add: all_finite_def)
next
  case (Cons kx t)
  obtain k x where kx: "kx = (k, x)" by (cases kx)
  have "list_all isfinite (map (f k) x) = list_all isfinite x"
    by (induction x) (simp_all add: assms)
  then show ?case using Cons kx by (simp add: all_finite_def)
qed

lemma all_finite_freeze: "all_finite (freeze_prototypes step freeze grads) = all_finite grads"
proof -
  let ?f = "\<lambda>k v. if k = ''agent/wm/rssm/prototypes'' \<and> sint step < py_int freeze
                 then fmul v (Fin 0) else v"
  have eq: "map (\<lambda>(k, g). if k = ''agent/wm/rssm/prototypes''
                            then (k, if sint step < py_int freeze
                                     then map (\<lambda>v. fmul v (Fin 0)) g else g)
                            else (k, g)) grads
      = map (\<lambda>(k, x). (k, map (?f k) x)) grads"
    by (rule map_cong) auto
  have af: "all_finite (map (\<lambda>(k, x). (k, map (?f k) x)) grads) = all_finite grads"
    by (rule all_finite_map) (simp add: isfinite_fmul_zero)
  show ?thesis unfolding freeze_prototypes_def eq using af by simp
qed

lemma all_finite_unscale: "c \<noteq> 0 \<Longrightarrow> all_finite (unscale c grads) = all_finite grads"
  unfolding unscale_def by (rule all_finite_map) (simp add: isfinite_fdiv)

lemma tree_shape_freeze: "tree_shape (freeze_prototypes step freeze grads) = tree_shape grads"
  by (auto simp: freeze_prototypes_def tree_shape_def)

lemma tree_shape_unscale: "tree_shape (unscale c grads) = tree_shape grads"
  by (auto simp: unscale_def tree_shape_def)

lemma tree_shape_zeros_like: "tree_shape (zeros_like t) = tree_shape t"
  by (auto simp: zeros_like_def tree_shape_def)

lemma fadd_zero: "fadd p (Fin 0) = p"
  by (cases p) auto

lemma apply_updates_zeros:
  "tree_shape params = tree_shape t \<Longrightarrow> apply_updates params (zeros_like t) = Inr params"
proof -
  assume sh: "tree_shape params = tree_shape t"
  have "map (\<lambda>((k, p), (k', u)). (k, map (\<lambda>(a, b). fadd a b) (zip p u))) (zip params (zeros_like t))
      = params"
    using sh
  proof (induction params arbitrary: t)
    case Nil
    then show ?case by simp
  next
    case (Cons kp params)
    obtain k p where kp: "kp = (k, p)" by (cases kp)
    obtain kt x ts where t: "t = (kt, x) # ts"
      using Cons.prems kp by (cases t) (auto simp: tree_shape_def)
    have len: "length p = length x" and rest: "tree_shape params = tree_shape ts"
      using Cons.prems kp t by (simp_all add: tree_shape_def)
    have "map (\<lambda>(a, b). fadd a b) (zip p (map (\<lambda>_. Fin 0) x)) = p"
      using len by (auto intro!: nth_equalityI simp: fadd_zero)
    then show ?case using Cons.IH [OF rest] kp t by (simp add: zeros_like_def)
  qed
  then show ?thesis using sh by (simp add: apply_updates_def tree_shape_zeros_like)
qed


lemma all_finite_frozen:
  "opt_scaling self \<longrightarrow> opt_grad_scale self \<noteq> 0 \<Longrightarrow>
   all_finite (frozen_grads self grads) = all_finite grads"
  by (simp add: frozen_grads_def unscaled_grads_def all_finite_freeze all_finite_unscale)

lemma all_finite_unscaled:
  "opt_scaling self \<longrightarrow> opt_grad_scale self \<noteq> 0 \<Longrightarrow>
   all_finite (unscaled_grads self grads) = all_finite grads"
  by (simp add: unscaled_grads_def all_finite_unscale)

lemma tree_shape_frozen: "tree_shape (frozen_grads self grads) = tree_shape grads"
  by (simp add: frozen_grads_def unscaled_grads_def tree_shape_freeze tree_shape_unscale)

lemma tree_shape_opt_update:
  assumes keep: "\<And>g s p. tree_shape (fst (gt_update inner g s p)) = tree_shape g"
  shows "tree_shape (fst (opt_update inner self g st p)) = tree_shape g"
  using keep [of g "inner_state st" p]
  by (auto simp: opt_update_def apply_if_finite_update_def Let_def tree_shape_zeros_like
      split: prod.splits)

lemma Optimizer_call_unfold:
  assumes sh: "tree_shape params = tree_shape grads"
    and keep: "\<And>g s p. tree_shape (fst (gt_update inner g s p)) = tree_shape g"
  shows "\<exists>params'.
      apply_updates params (fst (opt_update inner self (frozen_grads self grads)
          (get_state inner self params) params)) = Inr params'
    \<and> Optimizer_call inner self params grads
        = Inr (self\<lparr>opt_step := opt_step self
                        + (if isfinite (global_norm (frozen_grads self grads)) then 1 else 0),
                      opt_grad_scale := fst (scale_update self grads),
                      opt_good_steps := fst (snd (scale_update self grads)),
                      opt_state := Some (snd (opt_update inner self (frozen_grads self grads)
                          (get_state inner self params) params))\<rparr>,
               params',
               \<lparr>grad_norm = (if opt_scaling self
                              then (if isfinite (global_norm (frozen_grads self grads))
                                    then global_norm (frozen_grads self grads) else NaN)
                              else global_norm (frozen_grads self grads)),
                grad_steps = opt_step self
                        + (if isfinite (global_norm (frozen_grads self grads)) then 1 else 0),
                grad_scale = (if opt_scaling self then Some (fst (scale_update self grads))
                              else None),
                grad_overflow = (if opt_scaling self
                   then Some (astype_float (\<not> snd (snd (scale_update self grads)))) else None)\<rparr>)"
proof -
  let ?u = "opt_update inner self (frozen_grads self grads) (get_state inner self params) params"
  have "tree_shape (fst ?u) = tree_shape params"
    using tree_shape_opt_update [OF keep] sh by (simp add: tree_shape_frozen)
  then obtain params' where ap: "apply_updates params (fst ?u) = Inr params'"
    by (simp add: apply_updates_def)
  show ?thesis
    using ap by (intro exI [of _ params']) (simp add: Optimizer_call_def Let_def split_def)
qed


lemma safe_increment_bound:
  fixes c :: "32 word"
  assumes "sint c < 1000"
  shows "\<not> 1000 < sint (safe_int32_increment c)"
proof -
  have lo: "- (2 ^ 31) \<le> sint c" using sint_ge [of c] by simp
  have "sint (c + 1) = signed_take_bit 31 (sint c + 1)"
    by (simp add: sint_word_ariths)
  also have "\<dots> = sint c + 1"
    using lo assms by (simp add: signed_take_bit_int_eq_self)
  finally show ?thesis using assms by (simp add: safe_int32_increment_def)
qed

lemma clip_bounds: "lo \<le> hi \<Longrightarrow> lo \<le> clip x lo hi \<and> clip x lo hi \<le> hi"
  by (simp add: clip_def)

lemma update_scale_cases:
  "update_scale gs good grads =
     (if \<not> all_finite grads then (clip (gs / 2) (1 / 10000) 10000, 0, False)
      else if 1000 \<le> sint good then (clip (gs * 2) (1 / 10000) 10000, 0, True)
      else (clip gs (1 / 10000) 10000, good + 1, True))"
  by (simp add: update_scale_def Let_def astype_float_def)


lemma opt_update_rejects:
  assumes sc: "opt_scaling self" and nf: "\<not> all_finite g"
    and cnt: "sint (notfinite_count st) < 1000"
  shows "fst (opt_update inner self g st params) = zeros_like g"
  using sc nf safe_increment_bound [OF cnt]
  by (simp add: opt_update_def apply_if_finite_update_def Let_def)

text \<open>
  Claim C3 (amended). Under mixed precision, with a non-zero loss scale, gradients of the
  shape of the parameters and a transformation that keeps shapes: after every call the
  loss scale lies in \<open>[1e-4, 1e4]\<close>. If some gradient element is not finite, the loss scale
  becomes its half clipped to that interval (not below \<open>1e-4\<close>), the counter of good steps
  is reset, the overflow flag is \<open>1\<close>, and the parameters are unchanged as long as fewer
  than \<open>1000\<close> consecutive non-finite updates have been rejected before. If all gradients
  are finite and the counter has reached \<open>1000\<close>, the loss scale becomes its double clipped
  to the interval (not above \<open>1e4\<close>: from the initial \<open>1e4\<close> it does not grow) and the
  counter is reset. Otherwise the loss scale is kept and the counter is incremented.
\<close>

theorem Optimizer_update_scale_clamped:
  assumes sc: "opt_scaling self" and gs: "opt_grad_scale self \<noteq> 0"
    and sh: "tree_shape params = tree_shape grads"
    and keep: "\<And>g s p. tree_shape (fst (gt_update inner g s p)) = tree_shape g"
  shows "\<exists>self' params' m. Optimizer_call inner self params grads = Inr (self', params', m)
    \<and> 1 / 10000 \<le> opt_grad_scale self' \<and> opt_grad_scale self' \<le> 10000
    \<and> (\<not> all_finite grads \<longrightarrow>
          opt_grad_scale self' = clip (opt_grad_scale self / 2) (1 / 10000) 10000
        \<and> opt_good_steps self' = 0 \<and> grad_overflow m = Some 1
        \<and> (sint (notfinite_count (get_state inner self params)) < 1000 \<longrightarrow> params' = params))
    \<and> (all_finite grads \<and> 1000 \<le> sint (opt_good_steps self) \<longrightarrow>
          opt_grad_scale self' = clip (opt_grad_scale self * 2) (1 / 10000) 10000
        \<and> opt_good_steps self' = 0 \<and> grad_overflow m = Some 0)
    \<and> (all_finite grads \<and> sint (opt_good_steps self) < 1000 \<longrightarrow>
          opt_grad_scale self' = clip (opt_grad_scale self) (1 / 10000) 10000
        \<and> opt_good_steps self' = opt_good_steps self + 1 \<and> grad_overflow m = Some 0)
    \<and> (1 / 10000 \<le> opt_grad_scale self \<and> opt_grad_scale self \<le> 10000 \<longrightarrow>
          clip (opt_grad_scale self / 2) (1 / 10000) 10000 = max (1 / 10000) (opt_grad_scale self / 2)
        \<and> clip (opt_grad_scale self * 2) (1 / 10000) 10000 = min 10000 (opt_grad_scale self * 2)
        \<and> clip (opt_grad_scale self) (1 / 10000) 10000 = opt_grad_scale self)"
proof -
  let ?G = "frozen_grads self grads"
  let ?u = "opt_update inner self ?G (get_state inner self params) params"
  have gs': "opt_scaling self \<longrightarrow> opt_grad_scale self \<noteq> 0" using gs by simp
  have su: "scale_update self grads
      = (if \<not> all_finite grads then (clip (opt_grad_scale self / 2) (1 / 10000) 10000, 0, False)
         else if 1000 \<le> sint (opt_good_steps self)
           then (clip (opt_grad_scale self * 2) (1 / 10000) 10000, 0, True)
         else (clip (opt_grad_scale self) (1 / 10000) 10000, opt_good_steps self + 1, True))"
    using sc by (simp add: scale_update_def update_scale_cases all_finite_unscaled [OF gs'])
  from Optimizer_call_unfold [OF sh keep, of self] obtain params' where
    ap: "apply_updates params (fst ?u) = Inr params'"
    and call: "Optimizer_call inner self params grads
        = Inr (self\<lparr>opt_step := opt_step self
                        + (if isfinite (global_norm ?G) then 1 else 0),
                      opt_grad_scale := fst (scale_update self grads),
                      opt_good_steps := fst (snd (scale_update self grads)),
                      opt_state := Some (snd ?u)\<rparr>,
               params',
               \<lparr>grad_norm = (if opt_scaling self
                              then (if isfinite (global_norm ?G) then global_norm ?G else NaN)
                              else global_norm ?G),
                grad_steps = opt_step self + (if isfinite (global_norm ?G) then 1 else 0),
                grad_scale = (if opt_scaling self then Some (fst (scale_update self grads))
                              else None),
                grad_overflow = (if opt_scaling self
                   then Some (astype_float (\<not> snd (snd (scale_update self grads)))) else None)\<rparr>)"
    by blast
  have bounds: "1 / 10000 \<le> fst (scale_update self grads) \<and> fst (scale_update self grads) \<le> 10000"
    using clip_bounds [of "1 / 10000" 10000] by (simp add: su)
  have skip: "params' = params"
    if nf: "\<not> all_finite grads" and cnt: "sint (notfinite_count (get_state inner self params)) < 1000"
  proof -
    have "\<not> all_finite ?G" using nf by (simp add: all_finite_frozen [OF gs'])
    then have "fst ?u = zeros_like ?G" by (rule opt_update_rejects [OF sc _ cnt])
    moreover have "tree_shape params = tree_shape ?G" using sh by (simp add: tree_shape_frozen)
    ultimately show ?thesis using ap by (simp add: apply_updates_zeros)
  qed
  have rng: "clip (opt_grad_scale self / 2) (1 / 10000) 10000 = max (1 / 10000) (opt_grad_scale self / 2)
        \<and> clip (opt_grad_scale self * 2) (1 / 10000) 10000 = min 10000 (opt_grad_scale self * 2)
        \<and> clip (opt_grad_scale self) (1 / 10000) 10000 = opt_grad_scale self"
    if "1 / 10000 \<le> opt_grad_scale self \<and> opt_grad_scale self \<le> 10000"
    using that by (auto simp: clip_def)
  show ?thesis
    apply (rule exI [of _ "self\<lparr>opt_step := opt_step self
                        + (if isfinite (global_norm ?G) then 1 else 0),
                      opt_grad_scale := fst (scale_update self grads),
                      opt_good_steps := fst (snd (scale_update self grads)),
                      opt_state := Some (snd ?u)\<rparr>"])
    apply (rule exI [of _ params'])
    apply (rule exI)
    apply (rule conjI [OF call])
    using bounds skip rng sc
    apply (simp add: su astype_float_def)
    done
qed








text \<open>A gradient that is not finite is not made zero by the product with \<open>0.0\<close>.\<close>

lemma fmul_zero_nonfinite: "\<not> isfinite v \<Longrightarrow> fmul v (Fin 0) = NaN"
  by (cases v) auto



lemma optax_scale_keeps_shape:
  "tree_shape (fst (gt_update (optax_scale factor) g s p)) = tree_shape g"
  by (simp add: optax_scale_def tree_shape_def comp_def case_prod_unfold)

theorem Optimizer_update_scale_clamped_witness:
  "\<exists>self' params' m.
      Optimizer_call (optax_scale (- 1 / 10))
        \<lparr>opt_step = 5, opt_scaling = True, opt_freeze = 10000, opt_grad_scale = 10000,
      opt_good_steps = 0, opt_state = None\<rparr> [(''w'', [Fin 1])] [(''w'', [NaN])] = Inr (self', params', m)
    \<and> opt_grad_scale self' = 5000 \<and> opt_good_steps self' = 0 \<and> params' = [(''w'', [Fin 1])]"
proof -
  have sc: "opt_scaling \<lparr>opt_step = 5, opt_scaling = True, opt_freeze = 10000, opt_grad_scale = 10000,
      opt_good_steps = 0, opt_state = None\<rparr>" by simp
  have gs: "opt_grad_scale \<lparr>opt_step = 5, opt_scaling = True, opt_freeze = 10000, opt_grad_scale = 10000,
      opt_good_steps = 0, opt_state = None\<rparr> \<noteq> 0" by simp
  have sh: "tree_shape [(''w'', [Fin 1])] = tree_shape [(''w'', [NaN])]"
    by (simp add: tree_shape_def)
  show ?thesis
    using Optimizer_update_scale_clamped [OF sc gs sh optax_scale_keeps_shape [where factor = "- 1 / 10"]]
    by (auto simp: all_finite_def clip_def get_state_def apply_if_finite_init_def)
qed

text \<open>
  Claim C3 as stated fails. At the initial loss scale \<open>1e4\<close>, with \<open>1000\<close> good steps and finite gradients,
  \<open>_update_scale\<close> leaves the loss scale at \<open>1e4\<close>: it does not double.
\<close>

theorem update_scale_doubling_counterexample:
  "update_scale 10000 1000 [(''w'', [Fin 1])] = (10000, 0, True)
   \<and> fst (update_scale 10000 1000 [(''w'', [Fin 1])]) \<noteq> 2 * 10000"
  by (simp add: update_scale_def all_finite_def astype_float_def clip_def Let_def)




section \<open>Properties of symlog and symexp\<close>

lemma symexp_symlog: "symexp (symlog x) = x"
proof -
  have nn: "0 \<le> ln (1 + \<bar>x\<bar>)" by simp
  consider "x < 0" | "x = 0" | "0 < x" by linarith
  then show ?thesis
  proof cases
    case 1
    then have "symlog x = - ln (1 - x)" by (simp add: symlog_def)
    moreover have "0 < ln (1 - x)" using 1 by simp
    ultimately show ?thesis using 1 by (simp add: symexp_def)
  next
    case 2
    then show ?thesis by (simp add: symlog_def symexp_def)
  next
    case 3
    then have "symlog x = ln (1 + x)" by (simp add: symlog_def)
    moreover have "0 < ln (1 + x)" using 3 by simp
    ultimately show ?thesis using 3 by (simp add: symexp_def)
  qed
qed

lemma symlog_symexp: "symlog (symexp x) = x"
proof -
  consider "x < 0" | "x = 0" | "0 < x" by linarith
  then show ?thesis
  proof cases
    case 1
    then have e: "symexp x = - (exp (- x) - 1)" by (simp add: symexp_def)
    have "1 < exp (- x)" using 1 by simp
    then have neg: "symexp x < 0" using e by simp
    then have "symlog (symexp x) = - ln (1 - symexp x)" by (simp add: symlog_def)
    also have "\<dots> = - ln (exp (- x))" using e by simp
    finally show ?thesis by simp
  next
    case 2
    then show ?thesis by (simp add: symlog_def symexp_def)
  next
    case 3
    then have e: "symexp x = exp x - 1" by (simp add: symexp_def)
    have "1 < exp x" using 3 by simp
    then have pos: "0 < symexp x" using e by simp
    then have "symlog (symexp x) = ln (1 + symexp x)" by (simp add: symlog_def)
    also have "\<dots> = ln (exp x)" using e by simp
    finally show ?thesis by simp
  qed
qed

lemma bij_symlog: "bij symlog"
  by (rule bij_betw_byWitness [where f' = symexp]) (simp_all add: symexp_symlog symlog_symexp)

lemma bij_symexp: "bij symexp"
  by (rule bij_betw_byWitness [where f' = symlog]) (simp_all add: symexp_symlog symlog_symexp)

text \<open>
  Claim C9. \<open>symlog\<close> and \<open>symexp\<close> are bijections of the reals and inverse to each
  other: \<open>symexp (symlog x) = x\<close> and \<open>symlog (symexp x) = x\<close> for every real \<open>x\<close>.
  Hence the mode and mean of \<open>SymlogDist\<close> and of \<open>DiscDist\<close> (with its default backward
  transform \<open>symexp\<close>) are the images under \<open>symexp\<close> of the symlog-space prediction:
  applying \<open>symlog\<close> to them recovers that prediction, so they lie in the original
  value space.
\<close>

theorem symlog_symexp_inverse_bijections:
  "symexp (symlog x) = x \<and> symlog (symexp x) = x
   \<and> bij symlog \<and> bij symexp \<and> inv symlog = symexp \<and> inv symexp = symlog
   \<and> symlog (SymlogDist_mode m) = m \<and> symlog (SymlogDist_mean m) = m
   \<and> symlog (DiscDist_mean symexp logits low high) = DiscDist_expect logits low high
   \<and> symlog (DiscDist_mode symexp logits low high) = DiscDist_expect logits low high"
proof -
  have "inv symlog = symexp"
    by (rule inv_equality) (simp_all add: symexp_symlog symlog_symexp)
  moreover have "inv symexp = symlog"
    by (rule inv_equality) (simp_all add: symexp_symlog symlog_symexp)
  ultimately show ?thesis
    by (simp add: symexp_symlog symlog_symexp bij_symlog bij_symexp
        SymlogDist_mode_def SymlogDist_mean_def DiscDist_mean_def DiscDist_mode_def)
qed

section \<open>The scale of the return normaliser\<close>










lemma stats_initial_mean_std:
  "stats \<lparr>mom_impl = ''mean_std'', mom_decay = d, mom_max = 1, mom_eps = 0, mom_perclo = 5,
         mom_perchi = 95, mom_step = 0, mom_mean = Fin 0, mom_sqrs = Fin 0, mom_low = Fin 0,
         mom_high = Fin 0, mom_mag = Fin 0\<rparr> = Inr (NaN, NaN)"
  by (simp add: stats_def Let_def fsub_def fpow_def)



end
